theory Spec2Isabelle
  imports Complex_Main "HOL-Library.Sublist"
begin

section \<open>JavaScript values used by the dashboard\<close>

text \<open>
  A JavaScript string is a \<open>string\<close>; a value that may be \<open>null\<close> or \<open>undefined\<close> is an
  option. A string is truthy when it is present and not empty, and \<open>a || b\<close> yields \<open>a\<close>
  when \<open>a\<close> is truthy and \<open>b\<close> otherwise. A number that may be missing is a
  \<open>real option\<close>; \<open>None\<close> also stands for \<open>NaN\<close>, which is falsy as well.
\<close>

definition truthy :: "string option \<Rightarrow> bool" where
  "truthy v = (case v of None \<Rightarrow> False | Some s \<Rightarrow> s \<noteq> [])"

definition strOr :: "string option \<Rightarrow> string \<Rightarrow> string" where
  "strOr v d = (if truthy v then the v else d)"

definition numOr :: "real option \<Rightarrow> real \<Rightarrow> real" where
  "numOr v d = (case v of None \<Rightarrow> d | Some x \<Rightarrow> (if x = 0 then d else x))"

section \<open>Prediction results\<close>

text \<open>
  Every response of the prediction service is parsed into fresh objects, and React compares
  effect dependencies by object identity. The records therefore carry the identity of the
  object (\<open>kref\<close>, \<open>pref\<close>) beside the fields the dashboard reads.
\<close>

record kpis =
  kref :: nat
  failure_probability :: "real option"
  remaining_useful_life :: "real option"

record prediction =
  pref :: nat
  kpis :: "kpis option"
  degradation_contributors :: "string list"

section \<open>SMS severity (Dashboard, sendSmsAlert)\<close>

record alert =
  a_phone :: string
  a_failure_prob :: real
  a_rul :: real
  a_severity :: string

definition failureProbOf :: "prediction \<Rightarrow> real" where
  "failureProbOf d =
     numOr (case kpis d of None \<Rightarrow> None | Some k \<Rightarrow> failure_probability k) 0"

definition rulOf :: "prediction \<Rightarrow> real" where
  "rulOf d =
     numOr (case kpis d of None \<Rightarrow> None | Some k \<Rightarrow> remaining_useful_life k) 0"

definition severityOf :: "real \<Rightarrow> string" where
  "severityOf failureProb =
     (let severity = ''normal'' in
      if failureProb \<ge> 70 then ''critical''
      else if failureProb \<ge> 40 then ''warning''
      else severity)"

text \<open>
  \<open>sendSmsAlert\<close> returns at once when the phone number is empty or there is no
  prediction data; otherwise it calls the alert collaborator with the request built here.
\<close>

definition smsAlertRequest :: "string \<Rightarrow> prediction option \<Rightarrow> alert option" where
  "smsAlertRequest phoneNumber predictionData =
     (case predictionData of
        None \<Rightarrow> None
      | Some d \<Rightarrow>
          if phoneNumber = [] then None
          else Some \<lparr> a_phone = phoneNumber,
                      a_failure_prob = failureProbOf d,
                      a_rul = rulOf d,
                      a_severity = severityOf (failureProbOf d) \<rparr>)"

section \<open>Geolocation failures (NearbyWorkshops, getCurrentLocation)\<close>

text \<open>
  The error callback of \<open>navigator.geolocation.getCurrentPosition\<close> switches on
  \<open>err.code\<close>, whose named values are 1, 2 and 3; every other code takes the default
  branch.
\<close>

definition PERMISSION_DENIED :: nat where "PERMISSION_DENIED = 1"
definition POSITION_UNAVAILABLE :: nat where "POSITION_UNAVAILABLE = 2"
definition TIMEOUT :: nat where "TIMEOUT = 3"

datatype geo_kind = PermissionDenied | PositionUnavailable | Timeout | Unknown

definition geoKind :: "nat \<Rightarrow> geo_kind" where
  "geoKind code =
     (if code = PERMISSION_DENIED then PermissionDenied
      else if code = POSITION_UNAVAILABLE then PositionUnavailable
      else if code = TIMEOUT then Timeout
      else Unknown)"

definition geoErrorMessage :: "nat \<Rightarrow> string" where
  "geoErrorMessage code =
     (if code = PERMISSION_DENIED then
        ''Location permission denied. Please enable location access in your browser settings.''
      else if code = POSITION_UNAVAILABLE then
        ''Location information unavailable. Please try again.''
      else if code = TIMEOUT then
        ''Location request timed out. Please try again.''
      else ''An error occurred while getting your location.'')"

record workshops =
  w_loading :: bool
  w_error :: "string option"
  w_userLocation :: "(real \<times> real) option"
  w_serviceCenters :: "string list"
  w_hasInitialized :: bool
  w_geoRequests :: nat

definition workshops_init :: workshops where
  "workshops_init =
     \<lparr> w_loading = False, w_error = None, w_userLocation = None,
       w_serviceCenters = [], w_hasInitialized = False, w_geoRequests = 0 \<rparr>"

text \<open>
  \<open>getCurrentLocation\<close>: set loading, clear the error, and either report that the
  browser has no geolocation or ask it for the position (counted in \<open>w_geoRequests\<close>).
\<close>

definition getCurrentLocation :: "bool \<Rightarrow> workshops \<Rightarrow> workshops" where
  "getCurrentLocation supported w =
     (let w1 = w\<lparr> w_loading := True, w_error := None \<rparr> in
      if \<not> supported then
        w1\<lparr> w_error := Some ''Geolocation is not supported by your browser'',
            w_loading := False \<rparr>
      else w1\<lparr> w_geoRequests := w_geoRequests w1 + 1 \<rparr>)"

text \<open>The error callback of the position request.\<close>

definition geoFailed :: "nat \<Rightarrow> workshops \<Rightarrow> workshops" where
  "geoFailed code w = w\<lparr> w_error := Some (geoErrorMessage code), w_loading := False \<rparr>"

text \<open>The error alert, with its Retry button, is rendered when \<open>error && !loading\<close>.\<close>

definition retryShown :: "workshops \<Rightarrow> bool" where
  "retryShown w = (truthy (w_error w) \<and> \<not> w_loading w)"

definition retryClick :: "bool \<Rightarrow> workshops \<Rightarrow> workshops" where
  "retryClick supported w = (if retryShown w then getCurrentLocation supported w else w)"

section \<open>Feature encoding\<close>

record feature_def =
  fid :: string
  fdefault :: real
  fmin :: real
  fmax :: real

text \<open>
  The dashboard initialises its telemetry values from the feature definitions:
  \<open>FEATURE_DEFINITIONS.forEach(f => { defaults[f.id] = f.default; })\<close>.
\<close>

definition initTelemetry :: "feature_def list \<Rightarrow> (string \<rightharpoonup> real)" where
  "initTelemetry defs = foldl (\<lambda>defaults f. defaults(fid f \<mapsto> fdefault f)) Map.empty defs"

datatype encoding_error = EncodingError

text \<open>
  Modelled from the spec: \<open>convertToFeatures\<close> and \<open>FEATURE_DEFINITIONS\<close> live in
  \<open>src/utils/helpers\<close>, which is not among the sources. The spec's contract: given a
  telemetry input and a fixed ordered schema of feature definitions (id, default, valid
  range), produce an ordered numeric sequence of exactly the schema's length; for each entry
  use the input's value if present and within range, otherwise the default; fail with
  \<open>EncodingError\<close> only if the schema itself is malformed. What makes a schema malformed is
  not said, so the check is a parameter.
\<close>

definition encodeEntry :: "(string \<rightharpoonup> real) \<Rightarrow> feature_def \<Rightarrow> real" where
  "encodeEntry inp f =
     (case inp (fid f) of
        None \<Rightarrow> fdefault f
      | Some v \<Rightarrow> if fmin f \<le> v \<and> v \<le> fmax f then v else fdefault f)"

text \<open>
  Modelled from the spec: \<open>convertToFeatures\<close> (absent with \<open>src/utils/helpers\<close>), the
  encoder of the contract above: \<open>EncodingError\<close> for a malformed schema, otherwise one
  encoded entry per schema entry, in schema order.
\<close>

definition convertToFeatures ::
  "(feature_def list \<Rightarrow> bool) \<Rightarrow> feature_def list \<Rightarrow> (string \<rightharpoonup> real)
     \<Rightarrow> encoding_error + real list" where
  "convertToFeatures malformed schema inp =
     (if malformed schema then Inl EncodingError else Inr (map (encodeEntry inp) schema))"

section \<open>The API service layer (services/api.js)\<close>

text \<open>
  Every function of the service layer awaits one HTTP call and returns \<open>response.data\<close>;
  when the call rejects it throws an \<open>Error\<close> whose message is the server's message, or
  a default when there is none. \<open>Inl\<close> is the thrown message.
\<close>

datatype 'a http = HttpOk 'a | HttpError "string option"

definition apiCall :: "string \<Rightarrow> 'a http \<Rightarrow> string + 'a" where
  "apiCall dflt r = (case r of HttpOk d \<Rightarrow> Inr d | HttpError m \<Rightarrow> Inl (strOr m dflt))"

record predict_response =
  p_success :: bool
  p_data :: "prediction option"

record upload_response =
  u_success :: bool
  u_url :: "string option"

record send_response =
  r_success :: bool
  r_message :: "string option"

text \<open>The body of a prediction response may be \<open>null\<close>, hence the option.\<close>

definition predictVehicleHealth :: "predict_response option http \<Rightarrow> string + predict_response option" where
  "predictVehicleHealth = apiCall ''Failed to get prediction''"

definition uploadPDFToCloudinary :: "upload_response http \<Rightarrow> string + upload_response" where
  "uploadPDFToCloudinary = apiCall ''Failed to upload PDF''"

definition sendReportEmail :: "send_response http \<Rightarrow> string + send_response" where
  "sendReportEmail = apiCall ''Failed to send email''"

definition sendAlert :: "send_response http \<Rightarrow> string + send_response" where
  "sendAlert = apiCall ''Failed to send alert''"

section \<open>The dashboard (Dashboard component)\<close>

record upload_status =
  uploading :: bool
  uploaded :: bool
  url :: "string option"

record sms_status =
  s_open :: bool
  s_success :: bool
  s_message :: string

text \<open>
  The upload started by the effect first renders the PDF (\<open>Generating\<close>) and, once the
  blob is read, calls the upload collaborator (\<open>Sending\<close>).
\<close>

datatype upload_phase = Generating | Sending

record upload_job =
  j_data :: prediction
  j_insights :: string
  j_phase :: upload_phase

text \<open>
  The state of the component: its \<open>useState\<close> cells and the \<open>pdfUploadTriggered\<close> ref,
  then the asynchronous calls that have not settled yet (each with the values its closure
  captured), and last the calls made to the collaborators so far. An email call is recorded
  with the prediction shown when the button was pressed and the URL it sends.
\<close>

record dashboard =
  phoneNumber :: string
  smsStatus :: sms_status
  prediction :: "prediction option"
  loading :: bool
  error :: "string option"
  activeTab :: nat
  aiInsights :: "string option"
  pdfUploadStatus :: upload_status
  pdfUploadTriggered :: bool
  emailSending :: bool
  emailSent :: bool
  nextId :: nat
  analyses :: "(nat \<times> string) list"
  uploads :: "(nat \<times> upload_job) list"
  emails :: "(nat \<times> prediction option \<times> string) list"
  alerts :: "(nat \<times> string) list"
  uploadSteps :: "(prediction \<times> string) list"
  uploadCalls :: "(prediction \<times> string) list"
  emailCalls :: "(prediction option \<times> string) list"
  emailsDelivered :: "(prediction option \<times> string) list"
  smsCalls :: "alert list"

definition DEFAULT_EMAIL :: string where
  "DEFAULT_EMAIL = ''kunalkharat2004@gmail.com''"

definition noUpload :: upload_status where
  "noUpload = \<lparr> uploading = False, uploaded = False, url = None \<rparr>"

text \<open>The state after the first render, whose effects change nothing.\<close>

definition dashboard_init :: dashboard where
  "dashboard_init =
     \<lparr> phoneNumber = [], smsStatus = \<lparr> s_open = False, s_success = False, s_message = [] \<rparr>,
       prediction = None, loading = False, error = None, activeTab = 0, aiInsights = None,
       pdfUploadStatus = noUpload, pdfUploadTriggered = False,
       emailSending = False, emailSent = False,
       nextId = 0, analyses = [], uploads = [], emails = [], alerts = [],
       uploadSteps = [], uploadCalls = [], emailCalls = [], emailsDelivered = [],
       smsCalls = [] \<rparr>"

definition pending :: "nat \<Rightarrow> (nat \<times> 'a) list \<Rightarrow> 'a option" where
  "pending i xs = map_of xs i"

definition settle :: "nat \<Rightarrow> (nat \<times> 'a) list \<Rightarrow> (nat \<times> 'a) list" where
  "settle i xs = filter (\<lambda>p. fst p \<noteq> i) xs"

subsection \<open>Effects\<close>

text \<open>
  The first effect, with dependencies \<open>[aiInsights, prediction]\<close>: when insights and a
  prediction are there and the ref is not set, set the ref, mark the upload as running and
  start generating the PDF from the prediction and insights of this render.
\<close>

definition uploadPDFToCloud :: "dashboard \<Rightarrow> dashboard" where
  "uploadPDFToCloud s =
     (case (aiInsights s, prediction s) of
        (Some i, Some d) \<Rightarrow>
          if i \<noteq> [] \<and> \<not> pdfUploadTriggered s then
            s\<lparr> pdfUploadTriggered := True,
               pdfUploadStatus := \<lparr> uploading = True, uploaded = False, url = None \<rparr>,
               uploads := uploads s @ [(nextId s, \<lparr> j_data = d, j_insights = i, j_phase = Generating \<rparr>)],
               uploadSteps := uploadSteps s @ [(d, i)],
               nextId := nextId s + 1 \<rparr>
          else s
      | _ \<Rightarrow> s)"

text \<open>The second effect, with dependency \<open>[prediction?.kpis]\<close>.\<close>

definition resetUploadTrigger :: "dashboard \<Rightarrow> dashboard" where
  "resetUploadTrigger s = s\<lparr> pdfUploadTriggered := False, pdfUploadStatus := noUpload \<rparr>"

definition kpisDep :: "dashboard \<Rightarrow> kpis option" where
  "kpisDep s = (case prediction s of None \<Rightarrow> None | Some d \<Rightarrow> kpis d)"

text \<open>
  After a render React runs, in the order of their declaration, the effects one of whose
  dependencies differs from the previous render: \<open>old\<close> is the state of the previous
  render, \<open>new\<close> the state being committed.
\<close>

definition commit :: "dashboard \<Rightarrow> dashboard \<Rightarrow> dashboard" where
  "commit old new =
     (let s1 = (if aiInsights new \<noteq> aiInsights old \<or> prediction new \<noteq> prediction old
                then uploadPDFToCloud new else new);
          s2 = (if kpisDep new \<noteq> kpisDep old then resetUploadTrigger s1 else s1)
      in s2)"

subsection \<open>Handlers\<close>

definition handleAIInsightsUpdate :: "string option \<Rightarrow> dashboard \<Rightarrow> dashboard" where
  "handleAIInsightsUpdate insights s = s\<lparr> aiInsights := insights \<rparr>"

text \<open>
  \<open>sendSmsAlert\<close> with the phone number its closure captured; the request is the one of
  \<open>smsAlertRequest\<close>.
\<close>

definition sendSmsAlert :: "string \<Rightarrow> prediction option \<Rightarrow> dashboard \<Rightarrow> dashboard" where
  "sendSmsAlert phone predictionData s =
     (case smsAlertRequest phone predictionData of
        None \<Rightarrow> s
      | Some a \<Rightarrow> s\<lparr> alerts := alerts s @ [(nextId s, phone)],
                      smsCalls := smsCalls s @ [a],
                      nextId := nextId s + 1 \<rparr>)"

definition smsSettled :: "string \<Rightarrow> send_response http \<Rightarrow> dashboard \<Rightarrow> dashboard" where
  "smsSettled phone r s =
     (case sendAlert r of
        Inr res \<Rightarrow>
          if r_success res then
            s\<lparr> smsStatus := \<lparr> s_open = True, s_success = True,
                              s_message = ''Alert sent to '' @ phone \<rparr> \<rparr>
          else
            s\<lparr> smsStatus := \<lparr> s_open = True, s_success = False,
                              s_message = strOr (r_message res) ''Failed to send alert'' \<rparr> \<rparr>
      | Inl msg \<Rightarrow>
          s\<lparr> smsStatus := \<lparr> s_open = True, s_success = False,
                            s_message = strOr (Some msg) ''Failed to send SMS alert'' \<rparr> \<rparr>)"

text \<open>
  \<open>handleAnalyze\<close> up to its \<open>await\<close>. The argument is what \<open>convertToFeatures\<close> did:
  \<open>Inl m\<close> when it threw an error with message \<open>m\<close>, in which case the \<open>catch\<close> and
  \<open>finally\<close> blocks run at once.
\<close>

definition analyzeFailedMessage :: string where
  "analyzeFailedMessage = ''An error occurred while analyzing vehicle health.''"

definition handleAnalyze :: "string option + real list \<Rightarrow> dashboard \<Rightarrow> dashboard" where
  "handleAnalyze features s =
     (let s1 = s\<lparr> loading := True, error := None \<rparr> in
      case features of
        Inl m \<Rightarrow> s1\<lparr> error := Some (strOr m analyzeFailedMessage), loading := False \<rparr>
      | Inr fs \<Rightarrow> s1\<lparr> analyses := analyses s1 @ [(nextId s1, phoneNumber s)],
                       nextId := nextId s1 + 1 \<rparr>)"

text \<open>
  The rest of \<open>handleAnalyze\<close>, when the prediction call settles. Reading \<open>result.success\<close>
  of a \<open>null\<close> body throws a \<open>TypeError\<close>. Its message is the engine's and differs between
  engines; the text below is the one of V8. Only that it is not empty matters here.
\<close>

definition nullResultMessage :: string where
  "nullResultMessage =
     ''Cannot read properties of null (reading '' @ [CHR 0x27] @ ''success'' @ [CHR 0x27] @ '')''"

definition analyzeSettled :: "string \<Rightarrow> predict_response option http \<Rightarrow> dashboard \<Rightarrow> dashboard" where
  "analyzeSettled phone r s =
     (let s1 =
        (case predictVehicleHealth r of
           Inr (Some result) \<Rightarrow>
             if p_success result then
               (let s2 = s\<lparr> prediction := p_data result, activeTab := 0 \<rparr> in
                if phone \<noteq> [] then sendSmsAlert phone (p_data result) s2 else s2)
             else s\<lparr> error := Some ''Failed to get prediction. Please try again.'' \<rparr>
         | Inr None \<Rightarrow> s\<lparr> error := Some (strOr (Some nullResultMessage) analyzeFailedMessage) \<rparr>
         | Inl msg \<Rightarrow> s\<lparr> error := Some (strOr (Some msg) analyzeFailedMessage) \<rparr>)
      in s1\<lparr> loading := False \<rparr>)"

text \<open>The continuation of the upload effect once the PDF is rendered, or failed to render.\<close>

definition pdfSettled :: "nat \<Rightarrow> upload_job \<Rightarrow> bool \<Rightarrow> dashboard \<Rightarrow> dashboard" where
  "pdfSettled i job ok s =
     (if ok then
        s\<lparr> uploads := uploads s @ [(i, job\<lparr> j_phase := Sending \<rparr>)],
           uploadCalls := uploadCalls s @ [(j_data job, j_insights job)] \<rparr>
      else s\<lparr> pdfUploadStatus := noUpload \<rparr>)"

definition uploadSettled :: "upload_response http \<Rightarrow> dashboard \<Rightarrow> dashboard" where
  "uploadSettled r s =
     (case uploadPDFToCloudinary r of
        Inr result \<Rightarrow>
          if u_success result then
            s\<lparr> pdfUploadStatus := \<lparr> uploading = False, uploaded = True, url = u_url result \<rparr> \<rparr>
          else s\<lparr> pdfUploadStatus := noUpload \<rparr>
      | Inl msg \<Rightarrow> s\<lparr> pdfUploadStatus := noUpload \<rparr>)"

text \<open>
  The email button is part of the results, rendered when \<open>prediction && !loading\<close>, and
  there only when \<open>pdfUploadStatus.uploaded\<close>; it is disabled when
  \<open>emailSending || emailSent\<close>.
\<close>

definition emailButtonEnabled :: "dashboard \<Rightarrow> bool" where
  "emailButtonEnabled s =
     (prediction s \<noteq> None \<and> \<not> loading s \<and> uploaded (pdfUploadStatus s)
      \<and> \<not> (emailSending s \<or> emailSent s))"

definition handleSendEmail :: "dashboard \<Rightarrow> dashboard" where
  "handleSendEmail s =
     (if \<not> truthy (url (pdfUploadStatus s)) then s
      else s\<lparr> emailSending := True,
              emails := emails s @ [(nextId s, prediction s, the (url (pdfUploadStatus s)))],
              emailCalls := emailCalls s @ [(prediction s, the (url (pdfUploadStatus s)))],
              nextId := nextId s + 1 \<rparr>)"

definition emailSettled ::
  "prediction option \<times> string \<Rightarrow> send_response http \<Rightarrow> dashboard \<Rightarrow> dashboard" where
  "emailSettled call r s =
     (let s1 =
        (case sendReportEmail r of
           Inr result \<Rightarrow>
             if r_success result then
               s\<lparr> emailSent := True,
                  emailsDelivered := emailsDelivered s @ [call],
                  smsStatus := \<lparr> s_open = True, s_success = True,
                                 s_message = ''Report sent to '' @ DEFAULT_EMAIL \<rparr> \<rparr>
             else
               s\<lparr> smsStatus := \<lparr> s_open = True, s_success = False,
                                 s_message = strOr (r_message result) ''Failed to send email'' \<rparr> \<rparr>
         | Inl msg \<Rightarrow>
             s\<lparr> smsStatus := \<lparr> s_open = True, s_success = False,
                               s_message = strOr (Some msg) ''Failed to send email'' \<rparr> \<rparr>)
      in s1\<lparr> emailSending := False \<rparr>)"

subsection \<open>Events\<close>

text \<open>
  What can happen to the dashboard: the user types a phone number, presses Run Analysis
  (disabled while loading) or the email button, a child calls \<open>handleAIInsightsUpdate\<close>,
  and the calls in flight settle, in any order. An event for a call that is not in flight
  changes nothing.

  The dashboard hands \<open>handleAIInsightsUpdate\<close> to the insights component only, as the prop
  \<open>onInsightsUpdate\<close>. The component
  \<open>DegradationContributors = ({ contributors, kpis, componentHealth }) => ...\<close> does not take
  that prop and never calls it. A run of the program as it stands therefore contains no
  \<open>InsightsUpdate\<close>; the event stands for a child that does report its insights.
\<close>

datatype event =
    PhoneChange string
  | AnalyzeClick "string option + real list"
  | AnalyzeDone nat "predict_response option http"
  | InsightsUpdate "string option"
  | PdfDone nat bool
  | UploadDone nat "upload_response http"
  | EmailClick
  | EmailDone nat "send_response http"
  | SmsDone nat "send_response http"
  | CloseSmsStatus
  | TabChange nat

fun handle :: "event \<Rightarrow> dashboard \<Rightarrow> dashboard" where
  "handle (PhoneChange v) s = s\<lparr> phoneNumber := v \<rparr>"
| "handle (AnalyzeClick features) s = (if loading s then s else handleAnalyze features s)"
| "handle (AnalyzeDone i r) s =
     (case pending i (analyses s) of
        None \<Rightarrow> s
      | Some phone \<Rightarrow> analyzeSettled phone r (s\<lparr> analyses := settle i (analyses s) \<rparr>))"
| "handle (InsightsUpdate v) s = handleAIInsightsUpdate v s"
| "handle (PdfDone i ok) s =
     (case pending i (uploads s) of
        None \<Rightarrow> s
      | Some job \<Rightarrow>
          if j_phase job = Generating
          then pdfSettled i job ok (s\<lparr> uploads := settle i (uploads s) \<rparr>)
          else s)"
| "handle (UploadDone i r) s =
     (case pending i (uploads s) of
        None \<Rightarrow> s
      | Some job \<Rightarrow>
          if j_phase job = Sending
          then uploadSettled r (s\<lparr> uploads := settle i (uploads s) \<rparr>)
          else s)"
| "handle EmailClick s = (if emailButtonEnabled s then handleSendEmail s else s)"
| "handle (EmailDone i r) s =
     (case pending i (emails s) of
        None \<Rightarrow> s
      | Some call \<Rightarrow> emailSettled call r (s\<lparr> emails := settle i (emails s) \<rparr>))"
| "handle (SmsDone i r) s =
     (case pending i (alerts s) of
        None \<Rightarrow> s
      | Some phone \<Rightarrow> smsSettled phone r (s\<lparr> alerts := settle i (alerts s) \<rparr>))"
| "handle CloseSmsStatus s = s\<lparr> smsStatus := (smsStatus s)\<lparr> s_open := False \<rparr> \<rparr>"
| "handle (TabChange v) s = s\<lparr> activeTab := v \<rparr>"

definition step :: "event \<Rightarrow> dashboard \<Rightarrow> dashboard" where
  "step e s = commit s (handle e s)"


definition run :: "event list \<Rightarrow> dashboard \<Rightarrow> dashboard" where
  "run es s = foldl (\<lambda>s e. step e s) s es"

section \<open>Parsing AI insights (parseInsights)\<close>

text \<open>
  \<open>str.replace(/PAT\n?/g, '')\<close> for a literal, non-empty \<open>PAT\<close>: scan from the left;
  where the pattern matches, drop it together with one following newline and go on behind
  the match, otherwise keep the character.
\<close>

fun dropNl :: "string \<Rightarrow> string" where
  "dropNl [] = []"
| "dropNl (c # cs) = (if c = CHR 0x0A then cs else c # cs)"

function replaceFence :: "string \<Rightarrow> string \<Rightarrow> string" where
  "replaceFence pat [] = []"
| "replaceFence pat (c # cs) =
     (if pat \<noteq> [] \<and> prefix pat (c # cs)
      then replaceFence pat (dropNl (drop (length pat) (c # cs)))
      else c # replaceFence pat cs)"
  by pat_completeness auto
termination
proof (relation "measure (\<lambda>(pat, s). length s)")
  show "wf (measure (\<lambda>(pat, s). length s))" by simp
next
  fix pat :: string and c cs
  assume match: "pat \<noteq> [] \<and> prefix pat (c # cs)"
  have shorter: "length (dropNl xs) \<le> length xs" for xs
    by (cases xs) auto
  from match have "length (drop (length pat) (c # cs)) < length (c # cs)" by simp
  with shorter [of "drop (length pat) (c # cs)"]
  show "((pat, dropNl (drop (length pat) (c # cs))), (pat, c # cs))
          \<in> measure (\<lambda>(pat, s). length s)"
    by simp
next
  fix pat :: string and c cs
  show "((pat, cs), (pat, c # cs)) \<in> measure (\<lambda>(pat, s). length s)" by simp
qed

text \<open>\<open>str.includes(pat)\<close>.\<close>

fun str_includes :: "string \<Rightarrow> string \<Rightarrow> bool" where
  "str_includes [] pat = (pat = [])"
| "str_includes (c # cs) pat = (prefix pat (c # cs) \<or> str_includes cs pat)"

text \<open>
  \<open>str.trim()\<close> removes white space and line terminators at both ends; among the
  characters of \<open>string\<close> these are tab, line feed, vertical tab, form feed, carriage
  return, space and no-break space.
\<close>

definition isSpace :: "char \<Rightarrow> bool" where
  "isSpace c = (c \<in> set [CHR 0x09, CHR 0x0A, CHR 0x0B, CHR 0x0C, CHR 0x0D, CHR 0x20, CHR 0xA0])"

definition trim :: "string \<Rightarrow> string" where
  "trim s = rev (dropWhile isSpace (rev (dropWhile isSpace s)))"

datatype json =
    JNull | JBool bool | JNum real | JStr string | JArr "json list" | JObj "(string \<times> json) list"

definition stripFences :: "string \<Rightarrow> string" where
  "stripFences insightsStr =
     (let jsonStr = insightsStr in
      if str_includes jsonStr ''```json''
      then replaceFence ''```'' (replaceFence ''```json'' jsonStr)
      else if str_includes jsonStr ''```'' then replaceFence ''```'' jsonStr
      else jsonStr)"

text \<open>
  \<open>parseInsights\<close> of the insights component. \<open>JSON.parse\<close> belongs to the runtime and
  is a parameter: \<open>None\<close> is its \<open>SyntaxError\<close>. The \<open>try\<close> block turns that error, and a
  parsed value that is not an array, into \<open>null\<close>, here \<open>None\<close>.
\<close>

definition parseInsights :: "(string \<Rightarrow> json option) \<Rightarrow> string \<Rightarrow> json list option" where
  "parseInsights JSON_parse insightsStr =
     (case JSON_parse (trim (stripFences insightsStr)) of
        None \<Rightarrow> None
      | Some parsed \<Rightarrow> (case parsed of JArr cards \<Rightarrow> Some cards | _ \<Rightarrow> None))"

text \<open>
  \<open>parseInsights\<close> of the PDF report: nothing for a falsy argument, an array is returned
  as it is, a string is parsed as above.
\<close>

datatype insights_value = InsightsText string | InsightsCards "json list"

definition parseInsightsPdf ::
  "(string \<Rightarrow> json option) \<Rightarrow> insights_value option \<Rightarrow> json list option" where
  "parseInsightsPdf JSON_parse insightsStr =
     (case insightsStr of
        None \<Rightarrow> None
      | Some (InsightsCards cards) \<Rightarrow> Some cards
      | Some (InsightsText t) \<Rightarrow> if t = [] then None else parseInsights JSON_parse t)"

text \<open>The report has an insights section only for a non-empty list of cards.\<close>

definition pdfInsightsSection ::
  "(string \<Rightarrow> json option) \<Rightarrow> insights_value option \<Rightarrow> json list option" where
  "pdfInsightsSection JSON_parse aiIns =
     (case parseInsightsPdf JSON_parse aiIns of
        Some (c # cs) \<Rightarrow> Some (c # cs)
      | _ \<Rightarrow> None)"

section \<open>The insights component (DegradationContributors)\<close>

record contributors =
  cref :: nat
  citems :: "string list"

record insights_response =
  i_success :: bool
  i_insights :: "string option"
  i_message :: "string option"

definition getAIInsights :: "insights_response http \<Rightarrow> string + insights_response" where
  "getAIInsights = apiCall ''Failed to get AI insights''"

record insights_panel =
  ip_contributors :: "contributors option"
  ip_aiInsights :: "string option"
  ip_loadingInsights :: bool
  ip_insightsError :: "string option"
  ip_nextId :: nat
  ip_requests :: "(nat \<times> contributors) list"
  ip_calls :: "contributors list"

definition hasContributors :: "insights_panel \<Rightarrow> bool" where
  "hasContributors s =
     (case ip_contributors s of None \<Rightarrow> False | Some c \<Rightarrow> citems c \<noteq> [])"

definition fetchAIInsights :: "insights_panel \<Rightarrow> insights_panel" where
  "fetchAIInsights s =
     (if \<not> hasContributors s then s
      else s\<lparr> ip_loadingInsights := True, ip_insightsError := None,
              ip_requests := ip_requests s @ [(ip_nextId s, the (ip_contributors s))],
              ip_calls := ip_calls s @ [the (ip_contributors s)],
              ip_nextId := ip_nextId s + 1 \<rparr>)"

text \<open>The rest of \<open>fetchAIInsights\<close>, when the call settles.\<close>

definition insightsSettled :: "insights_response http \<Rightarrow> insights_panel \<Rightarrow> insights_panel" where
  "insightsSettled r s =
     (let s1 =
        (case getAIInsights r of
           Inr result \<Rightarrow>
             if i_success result \<and> truthy (i_insights result)
             then s\<lparr> ip_aiInsights := i_insights result \<rparr>
             else s\<lparr> ip_insightsError :=
                       Some (strOr (i_message result) ''Failed to generate insights'') \<rparr>
         | Inl msg \<Rightarrow>
             s\<lparr> ip_insightsError := Some (strOr (Some msg) ''Failed to fetch AI insights'') \<rparr>)
      in s1\<lparr> ip_loadingInsights := False \<rparr>)"

text \<open>
  The component mounted with the given contributors; its effect, with dependency
  \<open>[contributors]\<close>, fetches insights when there are contributors.
\<close>

definition autoFetch :: "insights_panel \<Rightarrow> insights_panel" where
  "autoFetch s = (if hasContributors s then fetchAIInsights s else s)"

definition panel_mount :: "contributors option \<Rightarrow> insights_panel" where
  "panel_mount c =
     autoFetch \<lparr> ip_contributors = c, ip_aiInsights = None, ip_loadingInsights = False,
                 ip_insightsError = None, ip_nextId = 0, ip_requests = [], ip_calls = [] \<rparr>"

text \<open>
  The dashboard renders the component inside \<open>{prediction && !loading && ...}\<close> and inside
  the tab panel of the results tab, which renders its children only while that tab is
  shown. So the component is unmounted while an analysis is loading or the other tab is
  shown, and a new instance is mounted afterwards. The new instance starts from the initial
  state and fetches for its contributors. React ignores the state updates of an unmounted
  instance, so the calls of earlier instances are no longer in flight for the view. The
  counter of issued calls and the list of calls made go on.
\<close>

definition panel_remount :: "contributors option \<Rightarrow> insights_panel \<Rightarrow> insights_panel" where
  "panel_remount c s =
     autoFetch \<lparr> ip_contributors = c, ip_aiInsights = None, ip_loadingInsights = False,
                 ip_insightsError = None, ip_nextId = ip_nextId s, ip_requests = [],
                 ip_calls = ip_calls s \<rparr>"

text \<open>
  A parent passes new contributors to the mounted component, the dashboard replaces the
  component by a new instance, the user presses the refresh button (rendered when there are
  contributors, disabled while loading), or a call in flight settles.

  In the dashboard the contributors are those of the prediction, and the prediction changes
  only at the end of an analysis, during which the component is not mounted: the dashboard
  never passes new contributors to a mounted component. A run of the program contains no
  \<open>ContributorsChange\<close>.
\<close>

datatype panel_event =
    ContributorsChange "contributors option"
  | PanelRemount "contributors option"
  | RefreshClick
  | InsightsDone nat "insights_response http"

fun panel_step :: "panel_event \<Rightarrow> insights_panel \<Rightarrow> insights_panel" where
  "panel_step (ContributorsChange c) s =
     (if c = ip_contributors s then s else autoFetch (s\<lparr> ip_contributors := c \<rparr>))"
| "panel_step (PanelRemount c) s = panel_remount c s"
| "panel_step RefreshClick s =
     (if hasContributors s \<and> \<not> ip_loadingInsights s then fetchAIInsights s else s)"
| "panel_step (InsightsDone i r) s =
     (case pending i (ip_requests s) of
        None \<Rightarrow> s
      | Some c \<Rightarrow> insightsSettled r (s\<lparr> ip_requests := settle i (ip_requests s) \<rparr>))"

definition panel_run :: "panel_event list \<Rightarrow> insights_panel \<Rightarrow> insights_panel" where
  "panel_run es s = foldl (\<lambda>s e. panel_step e s) s es"

definition contributorsChange :: "panel_event \<Rightarrow> bool" where
  "contributorsChange e = (case e of ContributorsChange c \<Rightarrow> True | _ \<Rightarrow> False)"

text \<open>What the insights box shows.\<close>

datatype insights_view =
    Hidden | Spinner | ErrorText string | CardList "json list" | RawText string | Prompt

definition insightCards :: "(string \<Rightarrow> json option) \<Rightarrow> insights_panel \<Rightarrow> json list option" where
  "insightCards JSON_parse s =
     (if truthy (ip_aiInsights s) then parseInsights JSON_parse (the (ip_aiInsights s)) else None)"

definition insightsView :: "(string \<Rightarrow> json option) \<Rightarrow> insights_panel \<Rightarrow> insights_view" where
  "insightsView JSON_parse s =
     (if \<not> hasContributors s then Hidden
      else if ip_loadingInsights s then Spinner
      else if truthy (ip_insightsError s) then ErrorText (the (ip_insightsError s))
      else case insightCards JSON_parse s of
             Some (c # cs) \<Rightarrow> CardList (c # cs)
           | _ \<Rightarrow> if truthy (ip_aiInsights s) then RawText (the (ip_aiInsights s)) else Prompt)"

section \<open>The chat assistant (Chatbot component)\<close>

record chat_response =
  c_success :: bool
  c_greeting :: "string option"
  c_response :: "string option"

definition initializeChatbot :: "chat_response http \<Rightarrow> string + chat_response" where
  "initializeChatbot = apiCall ''Failed to initialize chatbot''"

definition CHATBOT_NAME :: string where
  "CHATBOT_NAME = ''AutoCare AI''"

datatype role = Bot | User

text \<open>
  The props the dashboard passes (\<open>prediction\<close>, \<open>pdfUrl\<close>, \<open>isReady\<close>), the state of the
  component, the initialisation calls in flight, the calls made so far, and the predictions
  with which an initialisation succeeded.
\<close>

record chatbot =
  cb_prediction :: "prediction option"
  cb_pdfUrl :: "string option"
  cb_isReady :: bool
  cb_isOpen :: bool
  cb_isInitializing :: bool
  cb_isInitialized :: bool
  cb_messages :: "(role \<times> string) list"
  cb_nextId :: nat
  cb_inits :: "(nat \<times> prediction) list"
  cb_initCalls :: "(prediction \<times> string option) list"
  cb_contexts :: "prediction list"

definition chatbot_init :: chatbot where
  "chatbot_init =
     \<lparr> cb_prediction = None, cb_pdfUrl = None, cb_isReady = False, cb_isOpen = False,
       cb_isInitializing = False, cb_isInitialized = False, cb_messages = [],
       cb_nextId = 0, cb_inits = [], cb_initCalls = [], cb_contexts = [] \<rparr>"

text \<open>\<open>initializeChat\<close> up to its \<open>await\<close>, and its continuation.\<close>

definition initializeChat :: "chatbot \<Rightarrow> chatbot" where
  "initializeChat s =
     (case cb_prediction s of
        None \<Rightarrow> s
      | Some d \<Rightarrow>
          s\<lparr> cb_isInitializing := True,
             cb_inits := cb_inits s @ [(cb_nextId s, d)],
             cb_initCalls := cb_initCalls s @ [(d, cb_pdfUrl s)],
             cb_nextId := cb_nextId s + 1 \<rparr>)"

definition chatSettled :: "prediction \<Rightarrow> chat_response http \<Rightarrow> chatbot \<Rightarrow> chatbot" where
  "chatSettled d r s =
     (let s1 =
        (case initializeChatbot r of
           Inr result \<Rightarrow>
             if c_success result then
               s\<lparr> cb_messages :=
                     [(Bot, strOr (c_greeting result)
                              (''Hello! I'' @ [CHR 0x27] @ ''m '' @ CHATBOT_NAME
                                @ '', your vehicle health assistant. How can I help you today?''))],
                  cb_isInitialized := True,
                  cb_contexts := cb_contexts s @ [d] \<rparr>
             else
               s\<lparr> cb_messages :=
                     [(Bot, ''Hello! I'' @ [CHR 0x27] @ ''m '' @ CHATBOT_NAME
                              @ ''. I'' @ [CHR 0x27]
                              @ ''m having trouble loading the analysis data, but I''
                              @ [CHR 0x27] @ ''ll try to help you.'')] \<rparr>
         | Inl msg \<Rightarrow>
             s\<lparr> cb_messages :=
                   [(Bot, ''Hello! I'' @ [CHR 0x27] @ ''m '' @ CHATBOT_NAME
                            @ ''. I encountered an issue, but feel free to ask me questions!'')] \<rparr>)
      in s1\<lparr> cb_isInitializing := False \<rparr>)"

text \<open>
  The effect with dependencies \<open>[isOpen, isReady, prediction, isInitialized]\<close>, run after a
  render in which one of them differs from the previous render.
\<close>

definition chatEffect :: "chatbot \<Rightarrow> chatbot" where
  "chatEffect s =
     (if cb_isOpen s \<and> cb_isReady s \<and> cb_prediction s \<noteq> None
         \<and> \<not> cb_isInitialized s \<and> \<not> cb_isInitializing s
      then initializeChat s else s)"

definition chat_commit :: "chatbot \<Rightarrow> chatbot \<Rightarrow> chatbot" where
  "chat_commit old new =
     (if cb_isOpen new \<noteq> cb_isOpen old \<or> cb_isReady new \<noteq> cb_isReady old
         \<or> cb_prediction new \<noteq> cb_prediction old
         \<or> cb_isInitialized new \<noteq> cb_isInitialized old
      then chatEffect new else new)"

text \<open>
  The dashboard renders the component with new props, the user presses the chat button
  (the component renders nothing unless \<open>isReady\<close>), or an initialisation call settles.
\<close>

datatype chat_event =
    ChatProps "prediction option" "string option" bool
  | ChatToggle
  | ChatInitDone nat "chat_response http"

fun chat_handle :: "chat_event \<Rightarrow> chatbot \<Rightarrow> chatbot" where
  "chat_handle (ChatProps d u ready) s =
     s\<lparr> cb_prediction := d, cb_pdfUrl := u, cb_isReady := ready \<rparr>"
| "chat_handle ChatToggle s =
     (if cb_isReady s then s\<lparr> cb_isOpen := \<not> cb_isOpen s \<rparr> else s)"
| "chat_handle (ChatInitDone i r) s =
     (case pending i (cb_inits s) of
        None \<Rightarrow> s
      | Some d \<Rightarrow> chatSettled d r (s\<lparr> cb_inits := settle i (cb_inits s) \<rparr>))"

definition chat_step :: "chat_event \<Rightarrow> chatbot \<Rightarrow> chatbot" where
  "chat_step e s = chat_commit s (chat_handle e s)"

definition chat_run :: "chat_event list \<Rightarrow> chatbot \<Rightarrow> chatbot" where
  "chat_run es s = foldl (\<lambda>s e. chat_step e s) s es"

section \<open>Outcomes and invariants used in the properties\<close>

text \<open>
  The prediction fails: the call rejects, the body is \<open>null\<close>, or the response does not
  report success.
\<close>

definition analysisFailed :: "predict_response option http \<Rightarrow> bool" where
  "analysisFailed r =
     (case predictVehicleHealth r of
        Inl msg \<Rightarrow> True
      | Inr None \<Rightarrow> True
      | Inr (Some result) \<Rightarrow> \<not> p_success result)"

text \<open>The chat initialisation succeeds: the call returns and reports success.\<close>

definition initSucceeded :: "chat_response http \<Rightarrow> bool" where
  "initSucceeded r =
     (case initializeChatbot r of Inr result \<Rightarrow> c_success result | Inl msg \<Rightarrow> False)"

text \<open>
  The insights a settled request applies: those of a response that reports success and
  carries non-empty insights, none otherwise.
\<close>

definition insightsOf :: "insights_response http \<Rightarrow> string option" where
  "insightsOf r =
     (case getAIInsights r of
        Inr result \<Rightarrow>
          if i_success result \<and> truthy (i_insights result) then i_insights result else None
      | Inl msg \<Rightarrow> None)"


text \<open>
  At most one chat initialisation is in flight, none once the chat is initialised, and at
  most one has succeeded.
\<close>

definition chatInv :: "chatbot \<Rightarrow> bool" where
  "chatInv s =
     (length (cb_inits s) \<le> 1
      \<and> (cb_inits s \<noteq> [] \<longrightarrow> cb_isInitializing s \<and> \<not> cb_isInitialized s)
      \<and> (\<not> cb_isInitialized s \<longrightarrow> cb_contexts s = [])
      \<and> length (cb_contexts s) \<le> 1)"


text \<open>
  At most one insight call of the mounted component is in flight; while it is, the component
  is loading, shows no error and has contributors; and every call in flight was issued.
\<close>

definition panelInv :: "insights_panel \<Rightarrow> bool" where
  "panelInv s =
     (length (ip_requests s) \<le> 1
      \<and> (ip_requests s \<noteq> [] \<longrightarrow>
            ip_loadingInsights s \<and> ip_insightsError s = None \<and> hasContributors s)
      \<and> (\<forall>p \<in> set (ip_requests s). fst p < ip_nextId s))"

text \<open>A call that was issued and is not in flight for the mounted component.\<close>

definition stale :: "nat \<Rightarrow> insights_panel \<Rightarrow> bool" where
  "stale i s = (i < ip_nextId s \<and> pending i (ip_requests s) = None)"


section \<open>Sample data\<close>

definition samplePrediction :: "nat \<Rightarrow> real \<Rightarrow> prediction" where
  "samplePrediction n fp =
     \<lparr> pref = n,
       kpis = Some \<lparr> kref = n, failure_probability = Some fp,
                     remaining_useful_life = Some 100 \<rparr>,
       degradation_contributors = [''engine_temp''] \<rparr>"

definition predicted :: "prediction \<Rightarrow> predict_response option http" where
  "predicted d = HttpOk (Some \<lparr> p_success = True, p_data = Some d \<rparr>)"

definition uploadedAs :: "string \<Rightarrow> upload_response http" where
  "uploadedAs u = HttpOk \<lparr> u_success = True, u_url = Some u \<rparr>"

definition sent :: "send_response http" where
  "sent = HttpOk \<lparr> r_success = True, r_message = None \<rparr>"

definition notSent :: "send_response http" where
  "notSent = HttpOk \<lparr> r_success = False, r_message = Some ''mail server unavailable'' \<rparr>"

definition insightsText :: "string \<Rightarrow> insights_response http" where
  "insightsText t = HttpOk \<lparr> i_success = True, i_insights = Some t, i_message = None \<rparr>"

definition greeted :: "chat_response http" where
  "greeted = HttpOk \<lparr> c_success = True, c_greeting = None, c_response = None \<rparr>"

section \<open>Sample sessions\<close>

text \<open>
  With a child that reports insights, three analyses in a row. Insights arrive for the first
  prediction, whose report is uploaded, and for the third; for the second none arrive before
  the user runs the next analysis. At the end the PDFs of the uploads started for the third
  prediction are rendered.
\<close>

definition doubleUploadTrace :: "event list" where
  "doubleUploadTrace =
     [AnalyzeClick (Inr []), AnalyzeDone 0 (predicted (samplePrediction 1 80)),
      InsightsUpdate (Some ''[1]''), PdfDone 1 True,
      UploadDone 1 (uploadedAs ''https://cdn/report1.pdf''),
      AnalyzeClick (Inr []), AnalyzeDone 2 (predicted (samplePrediction 2 60)),
      AnalyzeClick (Inr []), AnalyzeDone 3 (predicted (samplePrediction 3 30)),
      InsightsUpdate (Some ''[3]''), PdfDone 4 True, PdfDone 5 True]"



text \<open>
  With a child that reports insights, one full cycle: analysis, insights, report uploaded,
  email sent.
\<close>

definition fullCycle :: "event list" where
  "fullCycle =
     [AnalyzeClick (Inr []), AnalyzeDone 0 (predicted (samplePrediction 1 80)),
      InsightsUpdate (Some ''[1]''), PdfDone 1 True,
      UploadDone 1 (uploadedAs ''https://cdn/report1.pdf''),
      EmailClick, EmailDone 2 sent]"

text \<open>A second analysis after it, with its own insights and its own uploaded report.\<close>

definition secondCycle :: "event list" where
  "secondCycle =
     [AnalyzeClick (Inr []), AnalyzeDone 3 (predicted (samplePrediction 2 60)),
      InsightsUpdate (Some ''[2]''), PdfDone 4 True,
      UploadDone 4 (uploadedAs ''https://cdn/report2.pdf'')]"

text \<open>A cycle in which the email fails and the user presses the button again.\<close>

definition retriedEmail :: "event list" where
  "retriedEmail =
     [AnalyzeClick (Inr []), AnalyzeDone 0 (predicted (samplePrediction 1 80)),
      InsightsUpdate (Some ''[1]''), PdfDone 1 True,
      UploadDone 1 (uploadedAs ''https://cdn/report1.pdf''),
      EmailClick, EmailDone 2 notSent, EmailClick]"

text \<open>
  A stand-in for \<open>JSON.parse\<close> that knows two texts, and an insights box that has received
  the text \<open>t\<close>.
\<close>

definition sampleParse :: "string \<Rightarrow> json option" where
  "sampleParse s =
     (if s = ''[1]'' then Some (JArr [JNum 1])
      else if s = ''{}'' then Some (JObj [])
      else None)"

definition samplePanel :: "string \<Rightarrow> insights_panel" where
  "samplePanel t =
     \<lparr> ip_contributors = Some \<lparr> cref = 1, citems = [''engine_temp''] \<rparr>,
       ip_aiInsights = Some t, ip_loadingInsights = False, ip_insightsError = None,
       ip_nextId = 1, ip_requests = [],
       ip_calls = [\<lparr> cref = 1, citems = [''engine_temp''] \<rparr>] \<rparr>"

section \<open>Properties: SMS severity\<close>

lemma severityOf_cases:
  "severityOf p = (if 70 \<le> p then ''critical'' else if 40 \<le> p then ''warning'' else ''normal'')"
  by (simp add: severityOf_def)

text \<open>
  Claim C7. The severity that \<open>sendSmsAlert\<close> passes to the alert collaborator is a total
  function of the failure probability: at least 70 gives "critical", at least 40 and below
  70 gives "warning", below 40 gives "normal"; so 75 is critical, 50 is warning and 10 is
  normal. Every call that is made (non-empty phone number, prediction data present) carries
  the severity of the prediction's failure probability, a missing probability counting as 0.
\<close>

theorem sms_severity_thresholds:
  "(70 \<le> p \<longrightarrow> severityOf p = ''critical'')
   \<and> (40 \<le> p \<and> p < 70 \<longrightarrow> severityOf p = ''warning'')
   \<and> (p < 40 \<longrightarrow> severityOf p = ''normal'')
   \<and> severityOf 75 = ''critical'' \<and> severityOf 50 = ''warning'' \<and> severityOf 10 = ''normal''
   \<and> (phone \<noteq> [] \<longrightarrow>
        (\<exists>a. smsAlertRequest phone (Some d) = Some a
             \<and> a_failure_prob a = failureProbOf d
             \<and> a_severity a = severityOf (failureProbOf d)))"
  by (simp add: severityOf_cases smsAlertRequest_def)

theorem sms_severity_thresholds_witness:
  "severityOf 70 = ''critical'' \<and> severityOf 69 = ''warning'' \<and> severityOf 40 = ''warning''
   \<and> severityOf 39 = ''normal''
   \<and> smsAlertRequest ''+4915112345678''
        (Some \<lparr> pref = 1,
                kpis = Some \<lparr> kref = 2, failure_probability = Some 75,
                              remaining_useful_life = Some 120 \<rparr>,
                degradation_contributors = [] \<rparr>)
      = Some \<lparr> a_phone = ''+4915112345678'', a_failure_prob = 75, a_rul = 120,
               a_severity = ''critical'' \<rparr>"
proof -
  let ?d = "\<lparr> pref = 1,
                kpis = Some \<lparr> kref = 2, failure_probability = Some 75,
                              remaining_useful_life = Some 120 \<rparr>,
                degradation_contributors = [] \<rparr>"
  have a: "severityOf 70 = ''critical''"
    using sms_severity_thresholds [of 70 "[]" ?d] by simp
  have b: "severityOf 69 = ''warning''"
    using sms_severity_thresholds [of 69 "[]" ?d] by simp
  have c: "severityOf 40 = ''warning''"
    using sms_severity_thresholds [of 40 "[]" ?d] by simp
  have d: "severityOf 39 = ''normal''"
    using sms_severity_thresholds [of 39 "[]" ?d] by simp
  have e: "failureProbOf ?d = 75" "rulOf ?d = 120"
    by (simp_all add: failureProbOf_def rulOf_def numOr_def)
  obtain a where f: "smsAlertRequest ''+4915112345678'' (Some ?d) = Some a"
      "a_severity a = severityOf (failureProbOf ?d)"
    using sms_severity_thresholds [of 75 "''+4915112345678''" ?d] by auto
  have "smsAlertRequest ''+4915112345678'' (Some ?d)
        = Some \<lparr> a_phone = ''+4915112345678'', a_failure_prob = 75, a_rul = 120,
                 a_severity = ''critical'' \<rparr>"
    using f e sms_severity_thresholds [of 75 "[]" ?d]
    by (simp add: smsAlertRequest_def)
  with a b c d show ?thesis by simp
qed

section \<open>Properties: geolocation failures\<close>

lemma geoErrorMessage_kind:
  "geoErrorMessage c = geoErrorMessage c' \<longleftrightarrow> geoKind c = geoKind c'"
  by (simp add: geoErrorMessage_def geoKind_def PERMISSION_DENIED_def
      POSITION_UNAVAILABLE_def TIMEOUT_def)

text \<open>
  Claim C9. The four kinds of geolocation failure (permission denied, position
  unavailable, timeout, and any other code) are shown with four different messages: two
  error codes get the same message exactly when they are of the same kind. After a failed
  request the error alert with its Retry button is shown, and pressing Retry where the
  browser supports geolocation clears the error, sets loading and asks for the position
  again.
\<close>

theorem geolocation_errors_distinct_and_retryable:
  "distinct (map geoErrorMessage [PERMISSION_DENIED, POSITION_UNAVAILABLE, TIMEOUT, 0])
   \<and> (geoErrorMessage c = geoErrorMessage c' \<longleftrightarrow> geoKind c = geoKind c')
   \<and> geoKind PERMISSION_DENIED = PermissionDenied
   \<and> geoKind POSITION_UNAVAILABLE = PositionUnavailable
   \<and> geoKind TIMEOUT = Timeout
   \<and> geoKind 0 = Unknown
   \<and> w_error (geoFailed c w) = Some (geoErrorMessage c)
   \<and> retryShown (geoFailed c w)
   \<and> w_geoRequests (retryClick True (geoFailed c w)) = w_geoRequests w + 1
   \<and> w_loading (retryClick True (geoFailed c w))
   \<and> w_error (retryClick True (geoFailed c w)) = None"
proof -
  have m: "geoErrorMessage c \<noteq> []"
    by (simp add: geoErrorMessage_def)
  have shown: "retryShown (geoFailed c w)"
    using m by (simp add: retryShown_def geoFailed_def truthy_def)
  have retry: "retryClick True (geoFailed c w) = getCurrentLocation True (geoFailed c w)"
    using shown by (simp add: retryClick_def)
  have d: "distinct (map geoErrorMessage [PERMISSION_DENIED, POSITION_UNAVAILABLE, TIMEOUT, 0])"
    by (simp add: geoErrorMessage_def PERMISSION_DENIED_def POSITION_UNAVAILABLE_def
        TIMEOUT_def)
  have k: "geoKind PERMISSION_DENIED = PermissionDenied"
    "geoKind POSITION_UNAVAILABLE = PositionUnavailable"
    "geoKind TIMEOUT = Timeout" "geoKind 0 = Unknown"
    by (simp_all add: geoKind_def PERMISSION_DENIED_def POSITION_UNAVAILABLE_def TIMEOUT_def)
  have r: "w_geoRequests (getCurrentLocation True (geoFailed c w)) = w_geoRequests w + 1"
    "w_loading (getCurrentLocation True (geoFailed c w))"
    "w_error (getCurrentLocation True (geoFailed c w)) = None"
    by (simp_all add: getCurrentLocation_def geoFailed_def Let_def)
  show ?thesis
    using d k shown r geoErrorMessage_kind [of c c']
    by (simp only: retry) (simp add: geoFailed_def)
qed

section \<open>Properties: feature encoding\<close>

text \<open>
  Claim C8. For a schema that is not malformed and any telemetry input, the encoder
  returns a sequence as long as the schema, and its element at each position is the input's
  value for that schema entry when the value is present and within the entry's range, and
  the entry's default otherwise.
\<close>

theorem feature_encoder_length_and_values:
  assumes "\<not> malformed schema"
  shows "\<exists>xs. convertToFeatures malformed schema inp = Inr xs
           \<and> length xs = length schema
           \<and> (\<forall>i < length schema.
                 xs ! i = (case inp (fid (schema ! i)) of
                             None \<Rightarrow> fdefault (schema ! i)
                           | Some v \<Rightarrow>
                               if fmin (schema ! i) \<le> v \<and> v \<le> fmax (schema ! i) then v
                               else fdefault (schema ! i)))"
  using assms by (simp add: convertToFeatures_def encodeEntry_def)

theorem feature_encoder_length_and_values_witness:
  "convertToFeatures (\<lambda>s. s = [])
     [\<lparr> fid = ''engine_temp'', fdefault = 90, fmin = 0, fmax = 150 \<rparr>,
      \<lparr> fid = ''oil_pressure'', fdefault = 40, fmin = 10, fmax = 80 \<rparr>,
      \<lparr> fid = ''rpm'', fdefault = 2000, fmin = 0, fmax = 8000 \<rparr>]
     [''engine_temp'' \<mapsto> 105, ''oil_pressure'' \<mapsto> 500]
   = Inr [105, 40, 2000]"
proof -
  let ?schema = "[\<lparr> fid = ''engine_temp'', fdefault = 90, fmin = 0, fmax = 150 \<rparr>,
      \<lparr> fid = ''oil_pressure'', fdefault = 40, fmin = 10, fmax = 80 \<rparr>,
      \<lparr> fid = ''rpm'', fdefault = 2000, fmin = 0, fmax = (8000::real) \<rparr>]"
  let ?inp = "[''engine_temp'' \<mapsto> 105, ''oil_pressure'' \<mapsto> (500::real)]"
  obtain xs where xs: "convertToFeatures (\<lambda>s. s = []) ?schema ?inp = Inr xs"
      "length xs = length ?schema"
    using feature_encoder_length_and_values [of "\<lambda>s. s = []" ?schema ?inp] by auto
  have "xs = [105, 40, 2000]"
    using xs by (simp add: convertToFeatures_def encodeEntry_def)
  with xs(1) show ?thesis by simp
qed

text \<open>
  The telemetry values the dashboard starts with hold the default of every feature, so with
  distinct feature ids they encode to the defaults in schema order.
\<close>

lemma initTelemetry_snoc:
  "initTelemetry (defs @ [f]) = (initTelemetry defs)(fid f \<mapsto> fdefault f)"
  by (simp add: initTelemetry_def)

lemma initTelemetry_lookup:
  "distinct (map fid defs) \<Longrightarrow> f \<in> set defs \<Longrightarrow> initTelemetry defs (fid f) = Some (fdefault f)"
proof (induction defs rule: rev_induct)
  case Nil
  then show ?case by simp
next
  case (snoc g defs)
  show ?case
  proof (cases "f = g")
    case True
    then show ?thesis by (simp add: initTelemetry_snoc)
  next
    case False
    with snoc.prems have "f \<in> set defs" "fid f \<noteq> fid g"
      by (auto simp: image_iff)
    with snoc show ?thesis by (simp add: initTelemetry_snoc)
  qed
qed

lemma initial_telemetry_encodes_to_defaults:
  assumes "\<not> malformed schema" and "distinct (map fid schema)"
  shows "convertToFeatures malformed schema (initTelemetry schema) = Inr (map fdefault schema)"
proof -
  have "encodeEntry (initTelemetry schema) f = fdefault f" if "f \<in> set schema" for f
    using initTelemetry_lookup [OF assms(2) that] by (simp add: encodeEntry_def)
  then have "map (encodeEntry (initTelemetry schema)) schema = map fdefault schema"
    by simp
  with assms(1) show ?thesis by (simp add: convertToFeatures_def)
qed

section \<open>Properties: a failed analysis\<close>

lemma pending_settle_same: "pending i (settle i xs) = None"
  by (induction xs) (auto simp: pending_def settle_def)

lemma pending_settle_other: "i \<noteq> j \<Longrightarrow> pending i (settle j xs) = pending i xs"
  by (induction xs) (auto simp: pending_def settle_def)

lemma settle_single:
  "length xs \<le> 1 \<Longrightarrow> pending i xs = Some c \<Longrightarrow> settle i xs = [] \<and> xs \<noteq> []"
  by (cases xs) (auto simp: pending_def settle_def split: if_splits)

lemma strOr_nonempty: "d \<noteq> [] \<Longrightarrow> strOr v d \<noteq> []"
  by (cases v) (auto simp: strOr_def truthy_def)

lemma analyzeSettled_failed:
  assumes "analysisFailed r"
  shows "\<not> loading (analyzeSettled phone r s)"
    and "truthy (error (analyzeSettled phone r s))"
    and "analyzeSettled phone r s = s\<lparr> error := error (analyzeSettled phone r s), loading := False \<rparr>"
  using assms
  by (auto simp: analysisFailed_def analyzeSettled_def truthy_def strOr_nonempty
      analyzeFailedMessage_def split: sum.splits option.splits)

lemma commit_same: "aiInsights new = aiInsights old \<Longrightarrow> prediction new = prediction old \<Longrightarrow> commit old new = new"
  by (simp add: commit_def kpisDep_def)

text \<open>
  Claim C5. When the prediction call in flight fails (the network call rejects, or the
  response reports no success), the dashboard stops loading and shows a non-empty error;
  the stored prediction, the insights, the upload status and the calls made to the
  collaborators are as before, the call is no longer in flight, and Run Analysis can be
  pressed again.
\<close>

theorem analysis_failure_returns_to_idle:
  assumes "pending i (analyses s) = Some phone" and "analysisFailed r"
  shows "\<not> loading (step (AnalyzeDone i r) s)
       \<and> truthy (error (step (AnalyzeDone i r) s))
       \<and> prediction (step (AnalyzeDone i r) s) = prediction s
       \<and> aiInsights (step (AnalyzeDone i r) s) = aiInsights s
       \<and> pdfUploadStatus (step (AnalyzeDone i r) s) = pdfUploadStatus s
       \<and> uploadSteps (step (AnalyzeDone i r) s) = uploadSteps s
       \<and> smsCalls (step (AnalyzeDone i r) s) = smsCalls s
       \<and> pending i (analyses (step (AnalyzeDone i r) s)) = None
       \<and> loading (step (AnalyzeClick (Inr fs)) (step (AnalyzeDone i r) s))"
proof -
  let ?s0 = "s\<lparr> analyses := settle i (analyses s) \<rparr>"
  let ?h = "analyzeSettled phone r ?s0"
  have h: "handle (AnalyzeDone i r) s = ?h"
    using assms(1) by simp
  have eq: "?h = ?s0\<lparr> error := error ?h, loading := False \<rparr>"
    using analyzeSettled_failed(3) [OF assms(2)] .
  have "aiInsights ?h = aiInsights s" "prediction ?h = prediction s"
    by (subst eq, simp)+
  then have st: "step (AnalyzeDone i r) s = ?h"
    by (simp only: step_def h commit_same)
  have idle: "\<not> loading ?h" "truthy (error ?h)"
    using analyzeSettled_failed(1,2) [OF assms(2)] by blast+
  have rest: "pdfUploadStatus ?h = pdfUploadStatus s" "uploadSteps ?h = uploadSteps s"
    "smsCalls ?h = smsCalls s" "analyses ?h = settle i (analyses s)"
    by (subst eq, simp)+
  have again: "loading (step (AnalyzeClick (Inr fs)) ?h)"
    using idle(1) by (simp add: step_def handleAnalyze_def commit_same Let_def)
  show ?thesis
    using idle rest again \<open>prediction ?h = prediction s\<close> \<open>aiInsights ?h = aiInsights s\<close>
    by (simp only: st) (simp add: pending_settle_same)
qed

theorem analysis_failure_returns_to_idle_witness:
  "loading (run [AnalyzeClick (Inr [])] dashboard_init)
   \<and> \<not> loading (run [AnalyzeClick (Inr []), AnalyzeDone 0 (HttpError None)] dashboard_init)
   \<and> error (run [AnalyzeClick (Inr []), AnalyzeDone 0 (HttpError None)] dashboard_init)
       = Some ''Failed to get prediction''
   \<and> prediction (run [AnalyzeClick (Inr []), AnalyzeDone 0 (HttpError None)] dashboard_init) = None"
proof -
  let ?s = "run [AnalyzeClick (Inr [])] dashboard_init"
  have p: "pending 0 (analyses ?s) = Some []"
    by (simp add: run_def step_def handleAnalyze_def dashboard_init_def commit_same pending_def Let_def)
  have f: "analysisFailed (HttpError None)"
    by (simp add: analysisFailed_def predictVehicleHealth_def apiCall_def)
  have r: "run [AnalyzeClick (Inr []), AnalyzeDone 0 (HttpError None)] dashboard_init
           = step (AnalyzeDone 0 (HttpError None)) ?s"
    by (simp add: run_def)
  have l: "loading ?s"
    by (simp add: run_def step_def handleAnalyze_def dashboard_init_def commit_same Let_def)
  have pn: "prediction ?s = None"
    by (simp add: run_def step_def handleAnalyze_def dashboard_init_def commit_same Let_def)
  have e: "error (step (AnalyzeDone 0 (HttpError None)) ?s) = Some ''Failed to get prediction''"
    using p by (simp add: step_def analyzeSettled_def predictVehicleHealth_def apiCall_def
        strOr_def truthy_def commit_same)
  show ?thesis
    using analysis_failure_returns_to_idle [OF p f, of "[]"] l pn e
    by (simp only: r) simp
qed

section \<open>Properties: insight requests\<close>

lemma panel_run_Cons: "panel_run (e # es) s = panel_run es (panel_step e s)"
  by (simp add: panel_run_def)

lemma panel_run_append: "panel_run (es @ es') s = panel_run es' (panel_run es s)"
  by (simp add: panel_run_def)

lemma fetch_panelInv:
  "hasContributors s \<Longrightarrow> ip_requests s = [] \<Longrightarrow> panelInv (fetchAIInsights s)"
  by (simp add: panelInv_def fetchAIInsights_def hasContributors_def)

lemma autoFetch_panelInv: "ip_requests s = [] \<Longrightarrow> panelInv (autoFetch s)"
  by (cases "hasContributors s") (simp_all add: autoFetch_def fetch_panelInv, simp add: panelInv_def)

lemma mount_panelInv: "panelInv (panel_mount c)"
  by (simp add: panel_mount_def autoFetch_panelInv)

lemma insightsSettled_fields:
  "ip_requests (insightsSettled r s) = ip_requests s"
  "ip_nextId (insightsSettled r s) = ip_nextId s"
  "ip_contributors (insightsSettled r s) = ip_contributors s"
  "\<not> ip_loadingInsights (insightsSettled r s)"
  by (auto simp: insightsSettled_def Let_def split: sum.splits)

lemma panel_step_panelInv:
  assumes "panelInv s" and "\<not> contributorsChange e"
  shows "panelInv (panel_step e s)"
proof (cases e)
  case (ContributorsChange c)
  with assms(2) show ?thesis by (simp add: contributorsChange_def)
next
  case (PanelRemount c)
  then show ?thesis by (simp add: panel_remount_def autoFetch_panelInv)
next
  case RefreshClick
  show ?thesis
  proof (cases "hasContributors s \<and> \<not> ip_loadingInsights s")
    case True
    with assms(1) have "ip_requests s = []"
      by (auto simp: panelInv_def)
    with True have "panelInv (fetchAIInsights s)"
      by (simp add: fetch_panelInv)
    with True show ?thesis by (simp add: RefreshClick)
  next
    case False
    then have "panel_step RefreshClick s = s" by auto
    with assms(1) show ?thesis by (simp only: RefreshClick)
  qed
next
  case (InsightsDone i r)
  show ?thesis
  proof (cases "pending i (ip_requests s)")
    case None
    with assms(1) show ?thesis by (simp add: InsightsDone)
  next
    case (Some c)
    with assms(1) have "settle i (ip_requests s) = []"
      using settle_single [of "ip_requests s" i c] by (simp add: panelInv_def)
    with Some show ?thesis
      by (simp add: InsightsDone panelInv_def insightsSettled_fields)
  qed
qed

lemma panel_run_panelInv:
  "panelInv s \<Longrightarrow> \<forall>e \<in> set es. \<not> contributorsChange e \<Longrightarrow> panelInv (panel_run es s)"
  by (induction es arbitrary: s) (simp_all add: panel_run_def panel_step_panelInv)

lemma settle_absent: "pending i xs = None \<Longrightarrow> pending i (settle j xs) = None"
  by (induction xs) (auto simp: pending_def settle_def)

lemma panel_step_stale: "stale i s \<Longrightarrow> stale i (panel_step e s)"
proof (cases e)
  case (ContributorsChange c)
  assume "stale i s"
  then show ?thesis
    by (auto simp: ContributorsChange stale_def autoFetch_def fetchAIInsights_def pending_def)
next
  case (PanelRemount c)
  assume "stale i s"
  then show ?thesis
    by (auto simp: PanelRemount stale_def panel_remount_def autoFetch_def fetchAIInsights_def
        pending_def)
next
  case RefreshClick
  assume "stale i s"
  then show ?thesis
    by (auto simp: RefreshClick stale_def fetchAIInsights_def pending_def)
next
  case (InsightsDone j r)
  assume "stale i s"
  then show ?thesis
    by (auto simp: InsightsDone stale_def insightsSettled_fields settle_absent
        split: option.splits)
qed

lemma panel_run_stale: "stale i s \<Longrightarrow> stale i (panel_run es s)"
  by (induction es arbitrary: s) (simp_all add: panel_run_def panel_step_stale)

lemma stale_done: "stale i s \<Longrightarrow> panel_step (InsightsDone i r) s = s"
  by (simp add: stale_def)

lemma settled_view_success:
  assumes "hasContributors s" and "ip_insightsError s = None" and "insightsOf r = Some b"
  shows "ip_aiInsights (insightsSettled r s) = Some b"
    and "insightsView JSON_parse (insightsSettled r s)
           = (case parseInsights JSON_parse b of
                Some (x # xs) \<Rightarrow> CardList (x # xs)
              | _ \<Rightarrow> RawText b)"
proof -
  from assms(3) obtain result where r: "getAIInsights r = Inr result" "i_success result"
    "truthy (i_insights result)" "i_insights result = Some b"
    by (auto simp: insightsOf_def split: sum.splits if_splits)
  then have st: "insightsSettled r s = s\<lparr> ip_aiInsights := Some b, ip_loadingInsights := False \<rparr>"
    by (simp add: insightsSettled_def)
  show "ip_aiInsights (insightsSettled r s) = Some b"
    by (simp add: st)
  have "truthy (Some b)" using r(3,4) by simp
  then show "insightsView JSON_parse (insightsSettled r s)
           = (case parseInsights JSON_parse b of
                Some (x # xs) \<Rightarrow> CardList (x # xs)
              | _ \<Rightarrow> RawText b)"
    using assms(1,2)
    by (auto simp: st insightsView_def insightCards_def hasContributors_def truthy_def
        split: option.splits list.splits)
qed

lemma settled_view_failure:
  assumes "hasContributors s" and "insightsOf r = None"
  shows "ip_aiInsights (insightsSettled r s) = ip_aiInsights s"
    and "\<exists>m. m \<noteq> [] \<and> insightsView JSON_parse (insightsSettled r s) = ErrorText m"
proof -
  have e: "\<exists>m. m \<noteq> [] \<and> insightsSettled r s
             = s\<lparr> ip_insightsError := Some m, ip_loadingInsights := False \<rparr>"
  proof (cases "getAIInsights r")
    case (Inl msg)
    then have "insightsSettled r s
        = s\<lparr> ip_insightsError := Some (strOr (Some msg) ''Failed to fetch AI insights''),
             ip_loadingInsights := False \<rparr>"
      by (simp add: insightsSettled_def)
    moreover have "strOr (Some msg) ''Failed to fetch AI insights'' \<noteq> []"
      by (rule strOr_nonempty) simp
    ultimately show ?thesis by blast
  next
    case (Inr result)
    with assms(2) have "\<not> (i_success result \<and> truthy (i_insights result))"
      by (auto simp: insightsOf_def truthy_def split: if_splits)
    with Inr have "insightsSettled r s
        = s\<lparr> ip_insightsError := Some (strOr (i_message result) ''Failed to generate insights''),
             ip_loadingInsights := False \<rparr>"
      by (auto simp: insightsSettled_def)
    moreover have "strOr (i_message result) ''Failed to generate insights'' \<noteq> []"
      by (rule strOr_nonempty) simp
    ultimately show ?thesis by blast
  qed
  then obtain m where m: "m \<noteq> []"
    "insightsSettled r s = s\<lparr> ip_insightsError := Some m, ip_loadingInsights := False \<rparr>"
    by blast
  show "ip_aiInsights (insightsSettled r s) = ip_aiInsights s"
    by (simp add: m(2))
  have "insightsView JSON_parse (insightsSettled r s) = ErrorText m"
    using assms(1) m(1) by (simp add: m(2) insightsView_def hasContributors_def truthy_def)
  with m(1) show "\<exists>m. m \<noteq> [] \<and> insightsView JSON_parse (insightsSettled r s) = ErrorText m"
    by blast
qed

text \<open>
  Claim C3. In a run of the program (no new contributors for a mounted component), let a
  request \<open>j\<close> be in flight and \<open>i\<close> be a request issued before it. Then \<open>i\<close> is not in flight for
  the mounted component: when \<open>j\<close> settles and \<open>i\<close> settles later, whatever happens in
  between, the late response of \<open>i\<close> changes nothing. After the two have settled the view is
  the one of the result of \<open>j\<close>, the later-issued request: its insights are applied and shown
  as cards (as raw text when they do not parse to a non-empty list), or, when \<open>j\<close>
  failed, its error is shown and the applied insights are as before. The result of the
  earlier-issued request is never applied.
\<close>

theorem stale_insights_discarded:
  assumes "\<forall>e \<in> set es. \<not> contributorsChange e"
    and "pending j (ip_requests (panel_run es (panel_mount c))) = Some cj"
    and "i < j"
  shows "panel_run (InsightsDone j rj # es' @ [InsightsDone i ri]) (panel_run es (panel_mount c))
           = panel_run (InsightsDone j rj # es') (panel_run es (panel_mount c))
       \<and> (\<forall>b. insightsOf rj = Some b \<longrightarrow>
             ip_aiInsights
               (panel_run [InsightsDone j rj, InsightsDone i ri] (panel_run es (panel_mount c)))
               = Some b
           \<and> insightsView JSON_parse
               (panel_run [InsightsDone j rj, InsightsDone i ri] (panel_run es (panel_mount c)))
               = (case parseInsights JSON_parse b of
                    Some (x # xs) \<Rightarrow> CardList (x # xs)
                  | _ \<Rightarrow> RawText b))
       \<and> (insightsOf rj = None \<longrightarrow>
             ip_aiInsights
               (panel_run [InsightsDone j rj, InsightsDone i ri] (panel_run es (panel_mount c)))
               = ip_aiInsights (panel_run es (panel_mount c))
           \<and> (\<exists>m. m \<noteq> [] \<and> insightsView JSON_parse
                 (panel_run [InsightsDone j rj, InsightsDone i ri] (panel_run es (panel_mount c)))
                 = ErrorText m))"
proof -
  define s where "s = panel_run es (panel_mount c)"
  define t where "t = s\<lparr> ip_requests := settle j (ip_requests s) \<rparr>"
  have inv: "panelInv s"
    unfolding s_def using mount_panelInv assms(1) by (rule panel_run_panelInv)
  have pj: "pending j (ip_requests s) = Some cj"
    using assms(2) by (simp add: s_def)
  then have ne: "ip_requests s \<noteq> []"
    by (auto simp: pending_def)
  with inv have live: "ip_insightsError s = None" "hasContributors s"
    by (simp_all add: panelInv_def)
  from inv ne pj have only: "ip_requests s = [(j, cj)]"
    by (cases "ip_requests s") (auto simp: panelInv_def pending_def split: if_splits)
  with inv have "j < ip_nextId s"
    by (simp add: panelInv_def)
  with assms(3) only have st: "stale i s"
    by (simp add: stale_def pending_def)
  have drop: "panel_step (InsightsDone i ri) u = u" if "stale i u" for u
    using that by (rule stale_done)
  have general: "panel_run (InsightsDone j rj # xs @ [InsightsDone i ri]) s
                 = panel_run (InsightsDone j rj # xs) s" for xs
  proof -
    have "stale i (panel_run (InsightsDone j rj # xs) s)"
      using st by (rule panel_run_stale)
    then have "panel_step (InsightsDone i ri) (panel_run (InsightsDone j rj # xs) s)
               = panel_run (InsightsDone j rj # xs) s"
      by (rule stale_done)
    moreover have "panel_run (InsightsDone j rj # xs @ [InsightsDone i ri]) s
               = panel_step (InsightsDone i ri) (panel_run (InsightsDone j rj # xs) s)"
      using panel_run_append [of "InsightsDone j rj # xs" "[InsightsDone i ri]" s]
      by (simp add: panel_run_def)
    ultimately show ?thesis by simp
  qed
  have two: "panel_run [InsightsDone j rj, InsightsDone i ri] s = insightsSettled rj t"
  proof -
    have "panel_run [InsightsDone j rj, InsightsDone i ri] s = panel_run [InsightsDone j rj] s"
      using general [of "[]"] by simp
    also have "\<dots> = insightsSettled rj t"
      using pj by (simp add: panel_run_def t_def)
    finally show ?thesis .
  qed
  have t: "hasContributors t" "ip_insightsError t = None" "ip_aiInsights t = ip_aiInsights s"
    using live by (simp_all add: t_def hasContributors_def)
  have ok: "ip_aiInsights (insightsSettled rj t) = Some b
      \<and> insightsView JSON_parse (insightsSettled rj t)
          = (case parseInsights JSON_parse b of
               Some (x # xs) \<Rightarrow> CardList (x # xs)
             | _ \<Rightarrow> RawText b)"
    if "insightsOf rj = Some b" for b
    using settled_view_success(1) [OF t(1,2) that]
      settled_view_success(2) [OF t(1,2) that, of JSON_parse] by simp
  have failed: "ip_aiInsights (insightsSettled rj t) = ip_aiInsights s
      \<and> (\<exists>m. m \<noteq> [] \<and> insightsView JSON_parse (insightsSettled rj t) = ErrorText m)"
    if "insightsOf rj = None"
    using settled_view_failure(1) [OF t(1) that]
      settled_view_failure(2) [OF t(1) that, of JSON_parse] t(3) by simp
  show ?thesis
    using general [of es'] ok failed
    by (simp only: two s_def [symmetric]) blast
qed

theorem stale_insights_discarded_witness:
  "insightsView sampleParse
     (panel_run [InsightsDone 1 (insightsText ''[1]''), InsightsDone 0 (insightsText ''{}'')]
        (panel_run [PanelRemount (Some \<lparr> cref = 2, citems = [''oil_temp''] \<rparr>)]
           (panel_mount (Some \<lparr> cref = 1, citems = [''rpm''] \<rparr>))))
   = CardList [JNum 1]
   \<and> ip_calls (panel_run [PanelRemount (Some \<lparr> cref = 2, citems = [''oil_temp''] \<rparr>)]
                 (panel_mount (Some \<lparr> cref = 1, citems = [''rpm''] \<rparr>)))
     = [\<lparr> cref = 1, citems = [''rpm''] \<rparr>, \<lparr> cref = 2, citems = [''oil_temp''] \<rparr>]
   \<and> (\<exists>m. insightsView sampleParse
          (panel_run [InsightsDone 1 (HttpError None), InsightsDone 0 (insightsText ''[1]'')]
             (panel_run [PanelRemount (Some \<lparr> cref = 2, citems = [''oil_temp''] \<rparr>)]
                (panel_mount (Some \<lparr> cref = 1, citems = [''rpm''] \<rparr>))))
        = ErrorText m)"
proof -
  let ?c1 = "\<lparr> cref = 1, citems = [''rpm''] \<rparr>"
  let ?c2 = "\<lparr> cref = 2, citems = [''oil_temp''] \<rparr>"
  let ?es = "[PanelRemount (Some ?c2)]"
  have program: "\<forall>e \<in> set ?es. \<not> contributorsChange e"
    by (simp add: contributorsChange_def)
  have r: "ip_requests (panel_run ?es (panel_mount (Some ?c1))) = [(1, ?c2)]"
    "ip_calls (panel_run ?es (panel_mount (Some ?c1))) = [?c1, ?c2]"
    by (simp_all add: panel_run_def panel_mount_def panel_remount_def autoFetch_def
        fetchAIInsights_def hasContributors_def)
  have p: "pending 1 (ip_requests (panel_run ?es (panel_mount (Some ?c1)))) = Some ?c2"
    by (simp only: r) (simp add: pending_def)
  have lt: "(0::nat) < 1" by simp
  have o: "insightsOf (insightsText ''[1]'') = Some ''[1]''" "insightsOf (HttpError None) = None"
    by (simp_all add: insightsOf_def getAIInsights_def apiCall_def insightsText_def truthy_def)
  have cards: "parseInsights sampleParse ''[1]'' = Some [JNum 1]"
    by (simp add: parseInsights_def stripFences_def trim_def isSpace_def sampleParse_def)
  note ok = stale_insights_discarded [OF program p lt,
      where rj = "insightsText ''[1]''" and es' = "[]" and ri = "insightsText ''{}''"
        and JSON_parse = sampleParse]
  note failed = stale_insights_discarded [OF program p lt,
      where rj = "HttpError None" and es' = "[]" and ri = "insightsText ''[1]''"
        and JSON_parse = sampleParse]
  from ok o(1) have "insightsView sampleParse
     (panel_run [InsightsDone 1 (insightsText ''[1]''), InsightsDone 0 (insightsText ''{}'')]
        (panel_run ?es (panel_mount (Some ?c1))))
     = (case parseInsights sampleParse ''[1]'' of
          Some (x # xs) \<Rightarrow> CardList (x # xs)
        | _ \<Rightarrow> RawText ''[1]'')"
    by blast
  then have a: "insightsView sampleParse
     (panel_run [InsightsDone 1 (insightsText ''[1]''), InsightsDone 0 (insightsText ''{}'')]
        (panel_run ?es (panel_mount (Some ?c1)))) = CardList [JNum 1]"
    by (simp only: cards) simp
  have b: "\<exists>m. insightsView sampleParse
          (panel_run [InsightsDone 1 (HttpError None), InsightsDone 0 (insightsText ''[1]'')]
             (panel_run ?es (panel_mount (Some ?c1)))) = ErrorText m"
    using failed o(2) by blast
  from a b r(2) show ?thesis by blast
qed

text \<open>
  The component itself does not compare a response with the request that is current: it is
  the dashboard's mounting that keeps two requests of one instance from overlapping. A
  parent that passed new contributors to the mounted component while a request is in flight
  would get the older response applied over the newer one.
\<close>

lemma contributors_change_lets_late_response_win:
  "ip_calls (panel_run [ContributorsChange (Some \<lparr> cref = 2, citems = [''oil_temp''] \<rparr>)]
               (panel_mount (Some \<lparr> cref = 1, citems = [''rpm''] \<rparr>)))
     = [\<lparr> cref = 1, citems = [''rpm''] \<rparr>, \<lparr> cref = 2, citems = [''oil_temp''] \<rparr>]
   \<and> ip_aiInsights
       (panel_run [ContributorsChange (Some \<lparr> cref = 2, citems = [''oil_temp''] \<rparr>),
                   InsightsDone 1 (insightsText ''[2]''),
                   InsightsDone 0 (insightsText ''[1]'')]
          (panel_mount (Some \<lparr> cref = 1, citems = [''rpm''] \<rparr>)))
     = Some ''[1]''
   \<and> insightsOf (insightsText ''[2]'') = Some ''[2]''
   \<and> ip_aiInsights
       (panel_run [ContributorsChange (Some \<lparr> cref = 2, citems = [''oil_temp''] \<rparr>),
                   InsightsDone 1 (insightsText ''[2]''),
                   InsightsDone 0 (insightsText ''[1]'')]
          (panel_mount (Some \<lparr> cref = 1, citems = [''rpm''] \<rparr>)))
     \<noteq> insightsOf (insightsText ''[2]'')"
  by (simp add: panel_run_def panel_mount_def autoFetch_def fetchAIInsights_def hasContributors_def
      pending_def settle_def insightsSettled_def getAIInsights_def apiCall_def truthy_def Let_def
      insightsText_def insightsOf_def)

section \<open>Properties: the chat assistant\<close>

lemma chatSettled_calls:
  "cb_initCalls (chatSettled d r s) = cb_initCalls s"
  "cb_inits (chatSettled d r s) = cb_inits s"
  "\<not> cb_isInitializing (chatSettled d r s)"
  "cb_isInitialized s \<Longrightarrow> cb_isInitialized (chatSettled d r s)"
  "initSucceeded r \<Longrightarrow> cb_isInitialized (chatSettled d r s)"
  "initSucceeded r \<Longrightarrow> cb_contexts (chatSettled d r s) = cb_contexts s @ [d]"
  "cb_contexts (chatSettled d r s) = cb_contexts s
     \<or> (cb_isInitialized (chatSettled d r s) \<and> cb_contexts (chatSettled d r s) = cb_contexts s @ [d])"
  "\<not> cb_isInitialized (chatSettled d r s) \<Longrightarrow> cb_contexts (chatSettled d r s) = cb_contexts s"
  by (auto simp: chatSettled_def initSucceeded_def Let_def split: sum.splits)

lemma chat_handle_initialized:
  "cb_isInitialized s \<Longrightarrow> cb_isInitialized (chat_handle e s)"
  by (cases e) (auto simp: chatSettled_calls split: option.splits)

lemma chat_handle_calls: "cb_initCalls (chat_handle e s) = cb_initCalls s"
  by (cases e) (auto simp: chatSettled_calls split: option.splits)

lemma chat_commit_initialized:
  "cb_isInitialized new \<Longrightarrow> chat_commit old new = new"
  by (simp add: chat_commit_def chatEffect_def)

lemma chat_step_initialized:
  assumes "cb_isInitialized s"
  shows "cb_isInitialized (chat_step e s)" and "cb_initCalls (chat_step e s) = cb_initCalls s"
  using assms
  by (simp_all add: chat_step_def chat_commit_initialized chat_handle_initialized chat_handle_calls)

lemma chat_run_initialized:
  "cb_isInitialized s \<Longrightarrow>
     cb_isInitialized (chat_run es s) \<and> cb_initCalls (chat_run es s) = cb_initCalls s"
proof (induction es arbitrary: s)
  case Nil
  then show ?case by (simp add: chat_run_def)
next
  case (Cons e es)
  have "chat_run (e # es) s = chat_run es (chat_step e s)"
    by (simp add: chat_run_def)
  with Cons.IH [of "chat_step e s"] chat_step_initialized [OF Cons.prems, of e]
  show ?case by simp
qed

lemma chat_handle_inv: "chatInv s \<Longrightarrow> chatInv (chat_handle e s)"
proof (cases e)
  case (ChatInitDone i r)
  assume inv: "chatInv s"
  show ?thesis
  proof (cases "pending i (cb_inits s)")
    case None
    with inv show ?thesis by (simp add: ChatInitDone)
  next
    case (Some d)
    let ?s0 = "s\<lparr> cb_inits := settle i (cb_inits s) \<rparr>"
    from inv Some have e: "settle i (cb_inits s) = []" "cb_inits s \<noteq> []"
      using settle_single [of "cb_inits s" i d] by (auto simp: chatInv_def)
    with inv have c: "cb_contexts s = []" by (auto simp: chatInv_def)
    have h: "chat_handle e s = chatSettled d r ?s0"
      using Some by (simp add: ChatInitDone)
    have "cb_inits (chatSettled d r ?s0) = []"
      using e by (simp add: chatSettled_calls)
    moreover have "length (cb_contexts (chatSettled d r ?s0)) \<le> 1"
      using chatSettled_calls(7) [of d r ?s0] c by auto
    moreover have "\<not> cb_isInitialized (chatSettled d r ?s0)
        \<longrightarrow> cb_contexts (chatSettled d r ?s0) = []"
      using chatSettled_calls(8) [of d r ?s0] c by auto
    ultimately show ?thesis by (simp add: h chatInv_def)
  qed
qed (auto simp: chatInv_def)

lemma chat_commit_inv: "chatInv new \<Longrightarrow> chatInv (chat_commit old new)"
  by (auto simp: chatInv_def chat_commit_def chatEffect_def initializeChat_def
      split: option.splits)

lemma chat_step_inv: "chatInv s \<Longrightarrow> chatInv (chat_step e s)"
  by (simp add: chat_step_def chat_handle_inv chat_commit_inv)

lemma chat_run_inv: "chatInv s \<Longrightarrow> chatInv (chat_run es s)"
  by (induction es arbitrary: s) (simp_all add: chat_run_def chat_step_inv)

lemma chat_init_inv: "chatInv chatbot_init"
  by (simp add: chatInv_def chatbot_init_def)

text \<open>
  Claim C10. In every session at most one chat initialisation succeeds. Once an
  initialisation call has succeeded, no later event makes the component call the
  initialisation collaborator again: whatever follows (the panel closed and opened, new
  props with another prediction and report URL, other calls settling), the list of
  initialisation calls and the context stay as they were, so the chat keeps the context of
  the prediction it was initialised with.
\<close>

theorem chat_initialized_once:
  assumes "pending i (cb_inits (chat_run es chatbot_init)) = Some d" and "initSucceeded r"
  shows "cb_contexts (chat_step (ChatInitDone i r) (chat_run es chatbot_init)) = [d]
       \<and> cb_isInitialized (chat_step (ChatInitDone i r) (chat_run es chatbot_init))
       \<and> cb_initCalls (chat_run es' (chat_step (ChatInitDone i r) (chat_run es chatbot_init)))
           = cb_initCalls (chat_run es chatbot_init)
       \<and> cb_contexts (chat_run es' (chat_step (ChatInitDone i r) (chat_run es chatbot_init)))
           = [d]
       \<and> length (cb_contexts (chat_run es' chatbot_init)) \<le> 1"
proof -
  let ?s = "chat_run es chatbot_init"
  let ?settled = "?s\<lparr> cb_inits := settle i (cb_inits ?s) \<rparr>"
  have inv: "chatInv ?s"
    using chat_init_inv by (rule chat_run_inv)
  then have "cb_inits ?s \<noteq> [] \<longrightarrow> \<not> cb_isInitialized ?s" "\<not> cb_isInitialized ?s \<longrightarrow> cb_contexts ?s = []"
    by (simp_all add: chatInv_def)
  moreover have "cb_inits ?s \<noteq> []"
    using assms(1) by (auto simp: pending_def)
  ultimately have none: "cb_contexts ?s = []"
    by blast
  have h: "chat_handle (ChatInitDone i r) ?s = chatSettled d r ?settled"
    using assms(1) by simp
  have ini: "cb_isInitialized (chatSettled d r ?settled)"
    using assms(2) by (rule chatSettled_calls(5))
  have st: "chat_step (ChatInitDone i r) ?s = chatSettled d r ?settled"
    using ini by (simp only: chat_step_def h chat_commit_initialized)
  have c: "cb_initCalls (chatSettled d r ?settled) = cb_initCalls ?s"
    by (simp add: chatSettled_calls(1))
  have ctx: "cb_contexts (chatSettled d r ?settled) = [d]"
    using chatSettled_calls(6) [OF assms(2), of d ?settled] none by simp
  have "chatInv (chat_step (ChatInitDone i r) ?s)"
    using inv by (rule chat_step_inv)
  then have "chatInv (chat_run es' (chat_step (ChatInitDone i r) ?s))"
    by (rule chat_run_inv)
  then have after: "chatInv (chat_run es' (chatSettled d r ?settled))"
    by (simp only: st)
  have one: "length (cb_contexts (chat_run es' chatbot_init)) \<le> 1"
    using chat_run_inv [OF chat_init_inv, of es'] by (simp add: chatInv_def)
  have keep: "cb_contexts (chat_run es' (chatSettled d r ?settled)) = [d]"
  proof -
    have grow: "\<exists>zs. cb_contexts (chat_run xs t) = cb_contexts t @ zs" for xs t
    proof (induction xs arbitrary: t)
      case Nil
      then show ?case by (simp add: chat_run_def)
    next
      case (Cons e xs)
      have "\<exists>zs. cb_contexts (chat_step e t) = cb_contexts t @ zs"
        by (cases e)
           (auto simp: chat_step_def chat_commit_def chatEffect_def initializeChat_def
              chatSettled_def Let_def split: option.splits sum.splits)
      with Cons [of "chat_step e t"] show ?case
        by (auto simp: chat_run_def)
    qed
    from grow [of es' "chatSettled d r ?settled"] ctx
    obtain zs where "cb_contexts (chat_run es' (chatSettled d r ?settled)) = d # zs"
      by auto
    moreover from after have "length (cb_contexts (chat_run es' (chatSettled d r ?settled))) \<le> 1"
      by (simp add: chatInv_def)
    ultimately show ?thesis by simp
  qed
  show ?thesis
    using chat_run_initialized [OF ini, of es'] ini c ctx keep one by (simp add: st)
qed

theorem chat_initialized_once_witness:
  "cb_initCalls
     (chat_run [ChatProps (Some (samplePrediction 2 20)) None False,
                ChatProps (Some (samplePrediction 2 20)) (Some ''https://cdn/report2.pdf'') True,
                ChatToggle, ChatToggle]
        (chat_step (ChatInitDone 0 greeted)
           (chat_run [ChatProps (Some (samplePrediction 1 80)) (Some ''https://cdn/report1.pdf'') True,
                      ChatToggle] chatbot_init)))
   = [(samplePrediction 1 80, Some ''https://cdn/report1.pdf'')]
   \<and> cb_contexts
     (chat_run [ChatProps (Some (samplePrediction 2 20)) None False,
                ChatProps (Some (samplePrediction 2 20)) (Some ''https://cdn/report2.pdf'') True,
                ChatToggle, ChatToggle]
        (chat_step (ChatInitDone 0 greeted)
           (chat_run [ChatProps (Some (samplePrediction 1 80)) (Some ''https://cdn/report1.pdf'') True,
                      ChatToggle] chatbot_init)))
   = [samplePrediction 1 80]"
proof -
  let ?P1 = "samplePrediction 1 80"
  let ?es = "[ChatProps (Some ?P1) (Some ''https://cdn/report1.pdf'') True, ChatToggle]"
  let ?s = "chat_run ?es chatbot_init"
  have s: "?s = chatbot_init\<lparr> cb_prediction := Some ?P1,
               cb_pdfUrl := Some ''https://cdn/report1.pdf'', cb_isReady := True,
               cb_isOpen := True, cb_isInitializing := True, cb_inits := [(0, ?P1)],
               cb_initCalls := [(?P1, Some ''https://cdn/report1.pdf'')], cb_nextId := 1 \<rparr>"
    by (simp add: chat_run_def chat_step_def chat_commit_def chatEffect_def initializeChat_def
        chatbot_init_def)
  have p: "pending 0 (cb_inits ?s) = Some ?P1"
    by (simp only: s) (simp add: pending_def)
  have ok: "initSucceeded greeted"
    by (simp add: initSucceeded_def initializeChatbot_def apiCall_def greeted_def)
  have c: "cb_initCalls ?s = [(?P1, Some ''https://cdn/report1.pdf'')]"
    by (simp only: s) simp
  show ?thesis
    using chat_initialized_once [OF p ok,
        of "[ChatProps (Some (samplePrediction 2 20)) None False,
             ChatProps (Some (samplePrediction 2 20)) (Some ''https://cdn/report2.pdf'') True,
             ChatToggle, ChatToggle]"] c
    by simp
qed

section \<open>Properties: the upload guard\<close>

lemmas dashboard_eval =
  run_def step_def commit_def kpisDep_def handleAnalyze_def analyzeSettled_def
  handleAIInsightsUpdate_def uploadPDFToCloud_def resetUploadTrigger_def noUpload_def
  pdfSettled_def uploadSettled_def emailButtonEnabled_def handleSendEmail_def emailSettled_def
  sendSmsAlert_def smsAlertRequest_def smsSettled_def
  predictVehicleHealth_def uploadPDFToCloudinary_def sendReportEmail_def sendAlert_def apiCall_def
  pending_def settle_def truthy_def strOr_def Let_def dashboard_init_def


lemma run_append: "run (es @ es') s = run es' (run es s)"
  by (simp add: run_def)
















text \<open>
  With a child that reports insights the guard has a gap. The upload effect is declared
  before the effect that clears the ref, so in the render in which a new prediction arrives
  the upload effect runs first, against the insights text of an earlier prediction if one is
  still stored and the ref is clear, and only then is the ref cleared again. In the session
  \<open>doubleUploadTrace\<close> the upload collaborator is called twice for the third prediction:
  once on its arrival, with the insights of the first prediction, and once more when its
  own insights arrive. This is no run of the program as it stands.
\<close>

lemma stale_insights_start_second_upload:
  "uploadSteps (run doubleUploadTrace dashboard_init)
     = [(samplePrediction 1 80, ''[1]''),
        (samplePrediction 3 30, ''[1]''),
        (samplePrediction 3 30, ''[3]'')]
   \<and> uploadCalls (run doubleUploadTrace dashboard_init)
     = [(samplePrediction 1 80, ''[1]''),
        (samplePrediction 3 30, ''[1]''),
        (samplePrediction 3 30, ''[3]'')]"
  by (simp add: doubleUploadTrace_def dashboard_eval samplePrediction_def predicted_def
      uploadedAs_def)

section \<open>Properties: the email guard\<close>
















text \<open>
  With a child that reports insights: after a full cycle in which the report was uploaded
  and the email sent, a second prediction gets exactly one upload of its own, but
  \<open>emailSent\<close> is still set, since nothing resets it: the email button of the new report is
  disabled, and pressing it sends nothing. This is no run of the program as it stands, in
  which no report is uploaded and no email sent.
\<close>

lemma email_guard_stays_latched:
  "uploadCalls (run (fullCycle @ secondCycle) dashboard_init)
     = [(samplePrediction 1 80, ''[1]''), (samplePrediction 2 60, ''[2]'')]
   \<and> prediction (run (fullCycle @ secondCycle) dashboard_init) = Some (samplePrediction 2 60)
   \<and> pdfUploadStatus (run (fullCycle @ secondCycle) dashboard_init)
       = \<lparr> uploading = False, uploaded = True, url = Some ''https://cdn/report2.pdf'' \<rparr>
   \<and> emailSent (run (fullCycle @ secondCycle) dashboard_init)
   \<and> \<not> emailButtonEnabled (run (fullCycle @ secondCycle) dashboard_init)
   \<and> emailCalls (run (fullCycle @ secondCycle @ [EmailClick]) dashboard_init)
       = [(Some (samplePrediction 1 80), ''https://cdn/report1.pdf'')]"
  by (simp add: fullCycle_def secondCycle_def dashboard_eval samplePrediction_def predicted_def
      uploadedAs_def sent_def)



text \<open>
  With a child that reports insights: when the email call reports failure the button is
  enabled again, and pressing it makes a second call for the same prediction and the same
  report. This is no run of the program as it stands.
\<close>

lemma email_retry_after_failure:
  "emailCalls (run retriedEmail dashboard_init)
   = [(Some (samplePrediction 1 80), ''https://cdn/report1.pdf''),
      (Some (samplePrediction 1 80), ''https://cdn/report1.pdf'')]"
  by (simp add: retriedEmail_def dashboard_eval samplePrediction_def predicted_def
      uploadedAs_def notSent_def)

section \<open>Properties: parsing insights\<close>

lemma replaceFence_match:
  "pat \<noteq> [] \<Longrightarrow> prefix pat (c # cs) \<Longrightarrow>
     replaceFence pat (c # cs) = replaceFence pat (dropNl (drop (length pat) (c # cs)))"
  by simp

lemma replaceFence_keep:
  "\<not> prefix pat (c # cs) \<Longrightarrow> replaceFence pat (c # cs) = c # replaceFence pat cs"
  by simp

lemma replaceFence_absent: "\<not> str_includes s pat \<Longrightarrow> replaceFence pat s = s"
  by (induction s) auto

lemma stripFences_eq: "stripFences s = replaceFence ''```'' (replaceFence ''```json'' s)"
proof (cases "str_includes s ''```json''")
  case True
  then show ?thesis by (simp add: stripFences_def)
next
  case False
  then have j: "replaceFence ''```json'' s = s" by (rule replaceFence_absent)
  show ?thesis
  proof (cases "str_includes s ''```''")
    case True
    with False j show ?thesis by (simp add: stripFences_def)
  next
    case no: False
    then have "replaceFence ''```'' s = s" by (rule replaceFence_absent)
    with False no j show ?thesis by (simp add: stripFences_def)
  qed
qed

lemma replaceFence_skip:
  "pat \<noteq> [] \<Longrightarrow> hd pat \<notin> set w \<Longrightarrow> replaceFence pat (w @ s) = w @ replaceFence pat s"
proof (induction w)
  case Nil
  then show ?case by simp
next
  case (Cons c w)
  then have "\<not> prefix pat (c # w @ s)"
    by (cases pat) auto
  with Cons show ?case by simp
qed

lemma replaceFence_fence_line:
  "pat \<noteq> [] \<Longrightarrow> replaceFence pat (pat @ CHR 0x0A # s) = replaceFence pat s"
  by (cases pat) simp_all

lemma dropNl_append: "d \<noteq> [] \<Longrightarrow> dropNl (d @ s) = dropNl d @ s"
  by (cases d) auto

lemma replaceFence_before_newline:
  assumes "CHR 0x0A \<notin> set pat" and "pat \<noteq> []"
  shows "\<exists>m. (m = [] \<or> m = [CHR 0x0A])
            \<and> replaceFence pat (t @ CHR 0x0A # s) = replaceFence pat t @ m @ replaceFence pat s"
  using assms
proof (induction pat t rule: replaceFence.induct)
  case (1 pat)
  then have "\<not> prefix pat (CHR 0x0A # s)"
    by (cases pat) auto
  then have "replaceFence pat ([] @ CHR 0x0A # s) = replaceFence pat [] @ [CHR 0x0A] @ replaceFence pat s"
    by simp
  then show ?case by blast
next
  case (2 pat c cs)
  show ?case
  proof (cases "prefix pat (c # cs)")
    case True
    let ?d = "drop (length pat) (c # cs)"
    have pre: "prefix pat (c # (cs @ CHR 0x0A # s))"
      using True prefix_prefix [of pat "c # cs" "CHR 0x0A # s"] by simp
    have len: "length pat \<le> length (c # cs)"
      using True by (rule prefix_length_le)
    then have dr: "drop (length pat) (c # (cs @ CHR 0x0A # s)) = ?d @ CHR 0x0A # s"
      using drop_append [of "length pat" "c # cs" "CHR 0x0A # s"] by simp
    have lhs: "replaceFence pat ((c # cs) @ CHR 0x0A # s)
               = replaceFence pat (dropNl (?d @ CHR 0x0A # s))"
      using replaceFence_match [OF "2.prems"(2) pre] dr by simp
    have rhs: "replaceFence pat (c # cs) = replaceFence pat (dropNl ?d)"
      using replaceFence_match [OF "2.prems"(2) True] .
    show ?thesis
    proof (cases "?d = []")
      case True
      then have "replaceFence pat ((c # cs) @ CHR 0x0A # s)
                 = replaceFence pat (c # cs) @ [] @ replaceFence pat s"
        by (simp only: lhs rhs) simp
      then show ?thesis by blast
    next
      case False
      then have "dropNl (?d @ CHR 0x0A # s) = dropNl ?d @ CHR 0x0A # s"
        by (rule dropNl_append)
      moreover obtain m where "m = [] \<or> m = [CHR 0x0A]"
        "replaceFence pat (dropNl ?d @ CHR 0x0A # s)
           = replaceFence pat (dropNl ?d) @ m @ replaceFence pat s"
        using "2.IH"(1) "2.prems" True by blast
      ultimately show ?thesis
        by (simp only: lhs rhs) blast
    qed
  next
    case False
    have "\<not> prefix pat (c # (cs @ CHR 0x0A # s))"
    proof
      assume "prefix pat (c # (cs @ CHR 0x0A # s))"
      then have "prefix pat ((c # cs) @ CHR 0x0A # s)" by simp
      then have "prefix pat (c # cs) \<or> (\<exists>us. pat = (c # cs) @ us \<and> prefix us (CHR 0x0A # s))"
        unfolding prefix_append .
      then obtain us where "pat = (c # cs) @ us" "prefix us (CHR 0x0A # s)"
        using False by blast
      moreover from this False have "us \<noteq> []" by auto
      ultimately have "CHR 0x0A \<in> set pat"
        by (cases us) auto
      with "2.prems"(1) show False by simp
    qed
    then have lhs: "replaceFence pat ((c # cs) @ CHR 0x0A # s)
                    = c # replaceFence pat (cs @ CHR 0x0A # s)"
      by simp
    have rhs: "replaceFence pat (c # cs) = c # replaceFence pat cs"
      using False by simp
    obtain m where "m = [] \<or> m = [CHR 0x0A]"
      "replaceFence pat (cs @ CHR 0x0A # s) = replaceFence pat cs @ m @ replaceFence pat s"
      using "2.IH"(2) "2.prems" False by blast
    then show ?thesis
      by (simp only: lhs rhs) auto
  qed
qed

lemma blank_chars:
  "list_all isSpace w \<Longrightarrow> CHR 0x60 \<notin> set w"
  by (auto simp: list_all_iff isSpace_def)

lemma blank_dropNl: "list_all isSpace w \<Longrightarrow> list_all isSpace (dropNl w)"
  by (cases w) auto

lemma replaceFence_blank:
  assumes "list_all isSpace w"
  shows "replaceFence ''```'' w = w" and "replaceFence ''```json'' w = w"
  using replaceFence_skip [of "''```''" w "[]"] replaceFence_skip [of "''```json''" w "[]"]
    blank_chars [OF assms]
  by simp_all

lemma replaceFence_json_closing:
  assumes "list_all isSpace w"
  shows "replaceFence ''```json'' (''```'' @ w) = ''```'' @ w"
proof -
  have "\<not> prefix ''json'' w" "\<not> prefix ''`json'' w" "\<not> prefix ''``json'' w"
    using assms by (cases w; auto simp: isSpace_def)+
  then show ?thesis
    using replaceFence_blank(2) [OF assms] by simp
qed

lemma replaceFence_closing:
  assumes "list_all isSpace w"
  shows "replaceFence ''```'' (''```'' @ w) = dropNl w"
  using replaceFence_blank(1) [OF blank_dropNl [OF assms]] by simp

lemma replaceFence_tick_blank:
  assumes "list_all isSpace w"
  shows "replaceFence ''```'' (CHR 0x60 # w) = CHR 0x60 # w"
    and "replaceFence ''```'' (CHR 0x60 # CHR 0x60 # w) = CHR 0x60 # CHR 0x60 # w"
proof -
  have "\<not> prefix ''`'' w" "\<not> prefix ''``'' w"
    using assms by (cases w; auto simp: isSpace_def)+
  then show "replaceFence ''```'' (CHR 0x60 # w) = CHR 0x60 # w"
    and "replaceFence ''```'' (CHR 0x60 # CHR 0x60 # w) = CHR 0x60 # CHR 0x60 # w"
    using replaceFence_blank(1) [OF assms] by simp_all
qed

lemma replaceFence_closing_adjacent:
  assumes "pat = ''```''" and "list_all isSpace w"
  shows "\<exists>w'. list_all isSpace w' \<and> replaceFence pat (u @ ''```'' @ w) = replaceFence pat u @ w'"
  using assms
proof (induction pat u rule: replaceFence.induct)
  case (1 pat)
  then show ?case
    using replaceFence_closing [of w] blank_dropNl [of w] by auto
next
  case (2 pat c cs)
  note pat = \<open>pat = ''```''\<close>
  show ?case
  proof (cases "prefix pat (c # cs)")
    case True
    let ?d = "drop (length pat) (c # cs)"
    have ne: "pat \<noteq> []" using pat by simp
    have pre: "prefix pat (c # (cs @ ''```'' @ w))"
      using True prefix_prefix [of pat "c # cs" "''```'' @ w"] by simp
    have "length pat \<le> length (c # cs)"
      using True by (rule prefix_length_le)
    then have dr: "drop (length pat) (c # (cs @ ''```'' @ w)) = ?d @ ''```'' @ w"
      using drop_append [of "length pat" "c # cs" "''```'' @ w"] by simp
    have lhs: "replaceFence pat ((c # cs) @ ''```'' @ w)
               = replaceFence pat (dropNl (?d @ ''```'' @ w))"
      using replaceFence_match [OF ne pre] dr by simp
    have rhs: "replaceFence pat (c # cs) = replaceFence pat (dropNl ?d)"
      using replaceFence_match [OF ne True] .
    show ?thesis
    proof (cases "?d = []")
      case True
      then have "replaceFence pat ((c # cs) @ ''```'' @ w) = replaceFence pat (c # cs) @ dropNl w"
        using replaceFence_closing [OF "2.prems"(2)] by (simp only: lhs rhs) (simp add: pat)
      with blank_dropNl [OF "2.prems"(2)] show ?thesis by blast
    next
      case False
      then have "dropNl (?d @ ''```'' @ w) = dropNl ?d @ ''```'' @ w"
        by (rule dropNl_append)
      moreover obtain w' where "list_all isSpace w'"
        "replaceFence pat (dropNl ?d @ ''```'' @ w) = replaceFence pat (dropNl ?d) @ w'"
        using "2.IH"(1) "2.prems" True ne by blast
      ultimately show ?thesis
        by (simp only: lhs rhs) blast
    qed
  next
    case False
    show ?thesis
    proof (cases "prefix pat (c # (cs @ ''```'' @ w))")
      case True
      then have "prefix pat ((c # cs) @ ''```'' @ w)" by simp
      then have "prefix pat (c # cs) \<or> (\<exists>us. pat = (c # cs) @ us \<and> prefix us (''```'' @ w))"
        unfolding prefix_append .
      then obtain us where us: "pat = (c # cs) @ us"
        using False by blast
      with False have "us \<noteq> []" by auto
      with us pat have "c # cs = ''`'' \<or> c # cs = ''``''"
        by (cases us; cases cs; cases "tl cs"; auto)
      then show ?thesis
      proof
        assume one: "c # cs = ''`''"
        have "replaceFence pat ((c # cs) @ ''```'' @ w) = replaceFence pat (c # cs) @ w"
          using replaceFence_tick_blank(1) [OF "2.prems"(2)]
          by (simp only: one pat) simp
        with "2.prems"(2) show ?thesis by blast
      next
        assume two: "c # cs = ''``''"
        have "replaceFence pat ((c # cs) @ ''```'' @ w) = replaceFence pat (c # cs) @ w"
          using replaceFence_tick_blank(2) [OF "2.prems"(2)]
          by (simp only: two pat) simp
        with "2.prems"(2) show ?thesis by blast
      qed
    next
      case no: False
      then have lhs: "replaceFence pat ((c # cs) @ ''```'' @ w)
                      = c # replaceFence pat (cs @ ''```'' @ w)"
        by simp
      have rhs: "replaceFence pat (c # cs) = c # replaceFence pat cs"
        using False by simp
      obtain w' where "list_all isSpace w'"
        "replaceFence pat (cs @ ''```'' @ w) = replaceFence pat cs @ w'"
        using "2.IH"(2) "2.prems" False by blast
      then show ?thesis
        by (simp only: lhs rhs) auto
    qed
  qed
qed

lemma trim_blank:
  assumes "list_all isSpace w1" and "list_all isSpace w2"
  shows "trim (w1 @ x @ w2) = trim x"
proof -
  have front: "dropWhile isSpace (w1 @ x @ w2) = dropWhile isSpace (x @ w2)"
    using assms(1) by (simp add: dropWhile_append2 list_all_iff)
  show ?thesis
  proof (cases "list_all isSpace x")
    case True
    then have all: "\<forall>c \<in> set (x @ w2). isSpace c" and allx: "\<forall>c \<in> set x. isSpace c"
      using assms(2) by (auto simp: list_all_iff)
    have "dropWhile isSpace (x @ w2) = []"
      using all by (rule dropWhile_eq_Nil_conv [THEN iffD2])
    moreover have "dropWhile isSpace x = []"
      using allx by (rule dropWhile_eq_Nil_conv [THEN iffD2])
    ultimately show ?thesis by (simp only: trim_def front)
  next
    case False
    then obtain c where "c \<in> set x" "\<not> isSpace c"
      by (auto simp: list_all_iff)
    then have "dropWhile isSpace (x @ w2) = dropWhile isSpace x @ w2"
      by (rule dropWhile_append1)
    moreover have "dropWhile isSpace (rev w2 @ z) = dropWhile isSpace z" for z
      using assms(2) by (intro dropWhile_append2) (auto simp: list_all_iff)
    ultimately show ?thesis by (simp add: trim_def front)
  qed
qed

lemma strip_closing:
  assumes "list_all isSpace w2"
  shows "\<exists>w'. list_all isSpace w'
           \<and> replaceFence ''```'' (replaceFence ''```json'' (t @ CHR 0x0A # ''```'' @ w2))
               = stripFences t @ w'"
proof -
  obtain m where m: "m = [] \<or> m = [CHR 0x0A]"
    "replaceFence ''```json'' (t @ CHR 0x0A # ''```'' @ w2)
       = replaceFence ''```json'' t @ m @ replaceFence ''```json'' (''```'' @ w2)"
    using replaceFence_before_newline [of "''```json''" t "''```'' @ w2"] by auto
  let ?u = "replaceFence ''```json'' t"
  have j: "replaceFence ''```json'' (t @ CHR 0x0A # ''```'' @ w2) = ?u @ m @ ''```'' @ w2"
    using m(2) replaceFence_json_closing [OF assms] by simp
  from m(1) have "\<exists>w'. list_all isSpace w'
      \<and> replaceFence ''```'' (?u @ m @ ''```'' @ w2) = replaceFence ''```'' ?u @ w'"
  proof
    assume "m = []"
    then show ?thesis
      using replaceFence_closing_adjacent [OF refl assms, of ?u] by simp
  next
    assume nl: "m = [CHR 0x0A]"
    obtain m' where m': "m' = [] \<or> m' = [CHR 0x0A]"
      "replaceFence ''```'' (?u @ CHR 0x0A # ''```'' @ w2)
         = replaceFence ''```'' ?u @ m' @ replaceFence ''```'' (''```'' @ w2)"
      using replaceFence_before_newline [of "''```''" ?u "''```'' @ w2"] by auto
    have "list_all isSpace (m' @ dropNl w2)"
      using m'(1) blank_dropNl [OF assms] by (auto simp: isSpace_def)
    moreover have "replaceFence ''```'' (?u @ m @ ''```'' @ w2)
        = replaceFence ''```'' ?u @ (m' @ dropNl w2)"
      using m'(2) replaceFence_closing [OF assms] nl by simp
    ultimately show ?thesis by blast
  qed
  then show ?thesis
    by (simp only: j stripFences_eq)
qed

lemma stripFences_json_fence:
  assumes "list_all isSpace w1" and "list_all isSpace w2"
  shows "trim (stripFences (w1 @ ''```json'' @ CHR 0x0A # t @ CHR 0x0A # ''```'' @ w2))
         = trim (stripFences t)"
proof -
  let ?rest = "t @ CHR 0x0A # ''```'' @ w2"
  have "replaceFence ''```json'' (w1 @ ''```json'' @ CHR 0x0A # ?rest)
        = w1 @ replaceFence ''```json'' (''```json'' @ CHR 0x0A # ?rest)"
    using replaceFence_skip [of "''```json''" w1] blank_chars [OF assms(1)] by simp
  also have "\<dots> = w1 @ replaceFence ''```json'' ?rest"
    using replaceFence_fence_line [of "''```json''" ?rest] by simp
  finally have j: "replaceFence ''```json'' (w1 @ ''```json'' @ CHR 0x0A # ?rest)
        = w1 @ replaceFence ''```json'' ?rest" .
  obtain w' where w': "list_all isSpace w'"
    "replaceFence ''```'' (replaceFence ''```json'' ?rest) = stripFences t @ w'"
    using strip_closing [OF assms(2), of t] by blast
  have "stripFences (w1 @ ''```json'' @ CHR 0x0A # ?rest) = w1 @ stripFences t @ w'"
    using replaceFence_skip [of "''```''" w1 "replaceFence ''```json'' ?rest"]
      blank_chars [OF assms(1)] w'(2)
    by (simp only: stripFences_eq j) simp
  then show ?thesis
    using trim_blank [OF assms(1) w'(1), of "stripFences t"] by simp
qed

lemma stripFences_plain_fence:
  assumes "list_all isSpace w1" and "list_all isSpace w2"
  shows "trim (stripFences (w1 @ ''```'' @ CHR 0x0A # t @ CHR 0x0A # ''```'' @ w2))
         = trim (stripFences t)"
proof -
  let ?rest = "t @ CHR 0x0A # ''```'' @ w2"
  have "replaceFence ''```json'' (w1 @ ''```'' @ CHR 0x0A # ?rest)
        = w1 @ replaceFence ''```json'' (''```'' @ CHR 0x0A # ?rest)"
    using replaceFence_skip [of "''```json''" w1] blank_chars [OF assms(1)] by simp
  also have "\<dots> = w1 @ ''```'' @ CHR 0x0A # replaceFence ''```json'' ?rest"
    by simp
  finally have j: "replaceFence ''```json'' (w1 @ ''```'' @ CHR 0x0A # ?rest)
        = w1 @ ''```'' @ CHR 0x0A # replaceFence ''```json'' ?rest" .
  obtain w' where w': "list_all isSpace w'"
    "replaceFence ''```'' (replaceFence ''```json'' ?rest) = stripFences t @ w'"
    using strip_closing [OF assms(2), of t] by blast
  have "replaceFence ''```'' (w1 @ ''```'' @ CHR 0x0A # replaceFence ''```json'' ?rest)
        = w1 @ replaceFence ''```'' (''```'' @ CHR 0x0A # replaceFence ''```json'' ?rest)"
    using replaceFence_skip [of "''```''" w1] blank_chars [OF assms(1)] by simp
  also have "\<dots> = w1 @ replaceFence ''```'' (replaceFence ''```json'' ?rest)"
    using replaceFence_fence_line [of "''```''" "replaceFence ''```json'' ?rest"] by simp
  finally have "stripFences (w1 @ ''```'' @ CHR 0x0A # ?rest) = w1 @ stripFences t @ w'"
    using w'(2) by (simp only: stripFences_eq j)
  then show ?thesis
    using trim_blank [OF assms(1) w'(1), of "stripFences t"] by simp
qed

lemma parseInsights_failure:
  assumes "JSON_parse (trim (stripFences t)) = None
           \<or> (\<exists>v. JSON_parse (trim (stripFences t)) = Some v \<and> (\<forall>cards. v \<noteq> JArr cards))"
  shows "parseInsights JSON_parse t = None"
  using assms by (auto simp: parseInsights_def split: option.splits json.splits)

text \<open>
  Claim C6. For any insight text \<open>t\<close>, the text wrapped in code-fence markers (an opening
  line \<open>```json\<close> or \<open>```\<close>, the text, a closing line \<open>```\<close>, with white space allowed
  before and after) parses to the same list of cards as \<open>t\<close> itself, whatever \<open>JSON.parse\<close>
  does; for a text without fence markers that is the list \<open>JSON.parse\<close> finds in the trimmed
  text. When the unwrapped, trimmed text is not JSON, or is JSON but not a list, parsing
  signals the failure by returning nothing, and the callers fall back: the insights box shows
  the raw text, the PDF report leaves the insights section out.
\<close>

theorem fenced_insights_parse_alike:
  assumes "list_all isSpace w1" and "list_all isSpace w2"
  shows "parseInsights JSON_parse (w1 @ ''```json'' @ CHR 0x0A # t @ CHR 0x0A # ''```'' @ w2)
           = parseInsights JSON_parse t
       \<and> parseInsights JSON_parse (w1 @ ''```'' @ CHR 0x0A # t @ CHR 0x0A # ''```'' @ w2)
           = parseInsights JSON_parse t
       \<and> (\<not> str_includes t ''```'' \<longrightarrow>
            parseInsights JSON_parse t
              = (case JSON_parse (trim t) of Some (JArr cards) \<Rightarrow> Some cards | _ \<Rightarrow> None))
       \<and> (JSON_parse (trim (stripFences t)) = None
            \<or> (\<exists>v. JSON_parse (trim (stripFences t)) = Some v \<and> (\<forall>cards. v \<noteq> JArr cards))
          \<longrightarrow> parseInsights JSON_parse t = None
              \<and> pdfInsightsSection JSON_parse (Some (InsightsText t)) = None
              \<and> (hasContributors p \<and> \<not> ip_loadingInsights p \<and> \<not> truthy (ip_insightsError p)
                   \<and> ip_aiInsights p = Some t \<and> t \<noteq> []
                  \<longrightarrow> insightsView JSON_parse p = RawText t))"
proof -
  have a: "parseInsights JSON_parse (w1 @ ''```json'' @ CHR 0x0A # t @ CHR 0x0A # ''```'' @ w2)
           = parseInsights JSON_parse t"
    using stripFences_json_fence [OF assms, of t] by (simp only: parseInsights_def)
  have b: "parseInsights JSON_parse (w1 @ ''```'' @ CHR 0x0A # t @ CHR 0x0A # ''```'' @ w2)
           = parseInsights JSON_parse t"
    using stripFences_plain_fence [OF assms, of t] by (simp only: parseInsights_def)
  have c: "parseInsights JSON_parse t
             = (case JSON_parse (trim t) of Some (JArr cards) \<Rightarrow> Some cards | _ \<Rightarrow> None)"
    if "\<not> str_includes t ''```''"
  proof -
    have "replaceFence ''```'' t = t"
      using that by (rule replaceFence_absent)
    moreover have "\<not> str_includes t ''```json''"
    proof
      assume "str_includes t ''```json''"
      then have "str_includes t ''```''"
        by (induction t) (auto simp: prefix_def)
      with that show False by simp
    qed
    ultimately have "stripFences t = t"
      by (simp add: stripFences_eq replaceFence_absent)
    then show ?thesis
      by (simp add: parseInsights_def split: option.splits json.splits)
  qed
  have d: "parseInsights JSON_parse t = None
           \<and> pdfInsightsSection JSON_parse (Some (InsightsText t)) = None
           \<and> (hasContributors p \<and> \<not> ip_loadingInsights p \<and> \<not> truthy (ip_insightsError p)
                \<and> ip_aiInsights p = Some t \<and> t \<noteq> []
               \<longrightarrow> insightsView JSON_parse p = RawText t)"
    if bad: "JSON_parse (trim (stripFences t)) = None
         \<or> (\<exists>v. JSON_parse (trim (stripFences t)) = Some v \<and> (\<forall>cards. v \<noteq> JArr cards))"
  proof -
    have n: "parseInsights JSON_parse t = None"
      using bad by (rule parseInsights_failure)
    then have "pdfInsightsSection JSON_parse (Some (InsightsText t)) = None"
      by (simp add: pdfInsightsSection_def parseInsightsPdf_def)
    moreover have "insightsView JSON_parse p = RawText t"
      if "hasContributors p \<and> \<not> ip_loadingInsights p \<and> \<not> truthy (ip_insightsError p)
            \<and> ip_aiInsights p = Some t \<and> t \<noteq> []"
      using that n by (simp add: insightsView_def insightCards_def truthy_def)
    ultimately show ?thesis using n by blast
  qed
  from a b c d show ?thesis by blast
qed

theorem fenced_insights_parse_alike_witness:
  "parseInsights sampleParse ('' '' @ ''```json'' @ CHR 0x0A # ''[1]'' @ CHR 0x0A # ''```'' @ [CHR 0x0A])
     = Some [JNum 1]
   \<and> parseInsights sampleParse ('' '' @ ''```'' @ CHR 0x0A # ''[1]'' @ CHR 0x0A # ''```'' @ [CHR 0x0A])
     = Some [JNum 1]
   \<and> parseInsights sampleParse ''{}'' = None
   \<and> insightsView sampleParse (samplePanel ''{}'') = RawText ''{}''
   \<and> parseInsights sampleParse ''Sorry, no insights today.'' = None
   \<and> insightsView sampleParse (samplePanel ''Sorry, no insights today.'')
        = RawText ''Sorry, no insights today.''"
proof -
  have w: "list_all isSpace '' ''" "list_all isSpace [CHR 0x0A]"
    by (simp_all add: isSpace_def)
  have plain: "\<not> str_includes ''[1]'' ''```''"
    by simp
  have one: "sampleParse (trim ''[1]'') = Some (JArr [JNum 1])"
    by (simp add: sampleParse_def trim_def isSpace_def)
  have obj: "sampleParse (trim (stripFences ''{}'')) = Some (JObj [])"
    by (simp add: sampleParse_def trim_def isSpace_def stripFences_def)
  have prose: "sampleParse (trim (stripFences ''Sorry, no insights today.'')) = None"
    by (simp add: sampleParse_def trim_def isSpace_def stripFences_def)
  have shown: "hasContributors (samplePanel t) \<and> \<not> ip_loadingInsights (samplePanel t)
      \<and> \<not> truthy (ip_insightsError (samplePanel t)) \<and> ip_aiInsights (samplePanel t) = Some t" for t
    by (simp add: samplePanel_def hasContributors_def truthy_def)
  note asCards = fenced_insights_parse_alike [OF w, of sampleParse "''[1]''" "samplePanel ''[1]''"]
  note asObject = fenced_insights_parse_alike [OF w, of sampleParse "''{}''" "samplePanel ''{}''"]
  note asProse = fenced_insights_parse_alike [OF w, of sampleParse "''Sorry, no insights today.''"
      "samplePanel ''Sorry, no insights today.''"]
  have c1: "parseInsights sampleParse ''[1]'' = Some [JNum 1]"
    using asCards plain one by simp
  have f1: "parseInsights sampleParse
              ('' '' @ ''```json'' @ CHR 0x0A # ''[1]'' @ CHR 0x0A # ''```'' @ [CHR 0x0A])
            = Some [JNum 1]"
    using asCards c1 by (simp only:)
  have f2: "parseInsights sampleParse
              ('' '' @ ''```'' @ CHR 0x0A # ''[1]'' @ CHR 0x0A # ''```'' @ [CHR 0x0A])
            = Some [JNum 1]"
    using asCards c1 by (simp only:)
  have nonempty: "''{}'' \<noteq> []" "''Sorry, no insights today.'' \<noteq> []"
    by simp_all
  have "sampleParse (trim (stripFences ''{}'')) = None
        \<or> (\<exists>v. sampleParse (trim (stripFences ''{}'')) = Some v \<and> (\<forall>cards. v \<noteq> JArr cards))"
    using obj by simp
  with asObject shown [of "''{}''"] nonempty(1)
  have o: "parseInsights sampleParse ''{}'' = None
           \<and> insightsView sampleParse (samplePanel ''{}'') = RawText ''{}''"
    by blast
  have "sampleParse (trim (stripFences ''Sorry, no insights today.'')) = None
        \<or> (\<exists>v. sampleParse (trim (stripFences ''Sorry, no insights today.'')) = Some v
                \<and> (\<forall>cards. v \<noteq> JArr cards))"
    using prose by simp
  with asProse shown [of "''Sorry, no insights today.''"] nonempty(2)
  have t: "parseInsights sampleParse ''Sorry, no insights today.'' = None
           \<and> insightsView sampleParse (samplePanel ''Sorry, no insights today.'')
               = RawText ''Sorry, no insights today.''"
    by blast
  from f1 f2 o t show ?thesis by blast
qed

end
